theory Spec2Isabelle
  imports Main "HOL-Library.Word"
begin

section \<open>Data model: bytes, files, the process's world\<close>

text \<open>
  The repository holds two scripts, \<^verbatim>\<open>convert_to_little.py\<close> (the Endian Converter) and
  \<^verbatim>\<open>read_binary.py\<close> (the Binary Dumper). Both work on raw binary files, 4 bytes at a
  time. A byte is an 8-bit word, a file's content a list of bytes, a Python \<^verbatim>\<open>int\<close> an
  \<open>int\<close>, a Python \<^verbatim>\<open>str\<close> a \<open>string\<close>.
\<close>

type_synonym byte = "8 word"

type_synonym path = string

text \<open>
  A file is known by an identity of its own (think of an inode number), not by the text
  of a path: \<^verbatim>\<open>in\<close> and \<^verbatim>\<open>./in\<close>, a symbolic link or a hard link name the same file.
\<close>

type_synonym file_id = nat

text \<open>
  The exceptions the two scripts can meet. \<open>StructError\<close> is \<^verbatim>\<open>struct.error\<close>;
  \<open>FileNotFoundError\<close>, \<open>NotADirectoryError\<close>, \<open>PermissionError\<close> and \<open>IsADirectoryError\<close>
  are what \<^verbatim>\<open>open\<close> raises; \<open>ValueError\<close> is an operation on a closed file,
  \<open>UnsupportedOperation\<close> a read of a file opened for writing (or the reverse);
  \<open>IndexError\<close> is \<^verbatim>\<open>sys.argv[0]\<close> on an empty \<^verbatim>\<open>sys.argv\<close>.
\<close>

datatype py_error =
  StructError | IndexError | FileNotFoundError | NotADirectoryError | PermissionError
  | IsADirectoryError | UnsupportedOperation | ValueError | OSError

text \<open>
  How the process ends: \<^verbatim>\<open>exit(n)\<close> or falling off the end of the script (\<open>Exit 0\<close>),
  or an exception nobody caught, which the interpreter reports with exit status 1.
\<close>

datatype outcome = Exit nat | Uncaught py_error

fun exit_status :: "outcome \<Rightarrow> nat" where
  "exit_status (Exit n) = n"
| "exit_status (Uncaught e) = 1"

text \<open>
  The world of a run.
  \<^item> \<open>locate\<close> is the operating system's path resolution: the file a path names, or
    the error that \<^verbatim>\<open>open\<close> raises when the path names nothing that could be a file (an
    empty path, a missing parent directory, a parent that is no directory, a directory
    that may not be searched). A path whose parent exists resolves also when no file is
    there yet: its identity is that of the file \<^verbatim>\<open>open(p, 'wb')\<close> would create. Two paths
    resolve to one identity exactly when they name the same file. Neither script makes,
    renames or removes a directory entry, so \<open>locate\<close> is the same throughout a run.
  \<^item> \<open>denied f m\<close> says that the process may not open the file \<open>f\<close> in the mode \<open>m\<close>
    (for a file still to be created: may not write to its directory).
  \<^item> \<open>fs\<close> maps an identity to what is there: a regular file with its content, a
    directory, or nothing.
  \<^item> \<open>open_files\<close> is the table of the file objects that are open, keyed by a handle
    number, \<open>next_fd\<close> the next handle number. A file object is the file it was opened
    on, its mode and its position.
  \<^item> \<open>stdout\<close> is what has been written to standard output.
  \<^item> \<open>read_calls\<close> counts the calls of \<^verbatim>\<open>read\<close> made so far.

  Reads and writes go through the table to \<open>fs\<close>, so two handles on one file see each
  other's effects. Python's buffering of reads and writes is not modelled: both scripts
  close or finish before anyone looks.
\<close>

datatype node = RegularFile "byte list" | Directory

datatype mode = RB | WB

record file_obj =
  f_file :: file_id
  f_mode :: mode
  f_pos :: nat

record world =
  locate :: "path \<Rightarrow> py_error + file_id"
  denied :: "file_id \<Rightarrow> mode \<Rightarrow> bool"
  fs :: "file_id \<rightharpoonup> node"
  open_files :: "nat \<rightharpoonup> file_obj"
  next_fd :: nat
  stdout :: string
  read_calls :: nat

text \<open>
  A process starts with no file of its own open, nothing printed and nothing read.
\<close>

definition initial_world ::
  "(path \<Rightarrow> py_error + file_id) \<Rightarrow> (file_id \<Rightarrow> mode \<Rightarrow> bool) \<Rightarrow> (file_id \<rightharpoonup> node) \<Rightarrow> world" where
  "initial_world lc dn files =
     \<lparr>locate = lc, denied = dn, fs = files, open_files = Map.empty, next_fd = 3,
      stdout = [], read_calls = 0\<rparr>"

text \<open>
  Environments for examples: \<open>names ps\<close> resolves exactly the paths listed in \<open>ps\<close> and
  has no such file or directory for any other; \<open>nothing_denied\<close> refuses nobody.
\<close>

definition names :: "(path \<times> file_id) list \<Rightarrow> path \<Rightarrow> py_error + file_id" where
  "names ps p = (case map_of ps p of None \<Rightarrow> Inl FileNotFoundError | Some f \<Rightarrow> Inr f)"

definition nothing_denied :: "file_id \<Rightarrow> mode \<Rightarrow> bool" where
  "nothing_denied f m = False"

section \<open>The library calls the scripts make\<close>

subsection \<open>struct.unpack and struct.pack with the format I\<close>

text \<open>
  \<^verbatim>\<open>struct.unpack('>I', data)[0]\<close>: \<^verbatim>\<open>struct.error\<close> unless \<^verbatim>\<open>data\<close> has exactly 4 bytes;
  otherwise the unsigned integer whose most significant byte comes first.
\<close>

definition unpack_I_be :: "byte list \<Rightarrow> py_error + int" where
  "unpack_I_be data =
     (if length data \<noteq> 4 then Inl StructError
      else Inr (foldl (\<lambda>acc b. acc * 256 + uint b) 0 data))"

text \<open>\<^verbatim>\<open>struct.unpack('<I', data)[0]\<close>: the same, least significant byte first.\<close>

definition unpack_I_le :: "byte list \<Rightarrow> py_error + int" where
  "unpack_I_le data =
     (if length data \<noteq> 4 then Inl StructError
      else Inr (foldr (\<lambda>b acc. uint b + 256 * acc) data 0))"

text \<open>
  \<^verbatim>\<open>struct.pack('<I', v)\<close>: \<^verbatim>\<open>struct.error\<close> unless \<open>0 \<le> v < 2^32\<close>; otherwise the 4
  bytes of \<open>v\<close>, least significant first.
\<close>

definition pack_I_le :: "int \<Rightarrow> py_error + byte list" where
  "pack_I_le v =
     (if v < 0 \<or> 2 ^ 32 \<le> v then Inl StructError
      else Inr (map (\<lambda>k. word_of_int (v div 256 ^ k)) [0, 1, 2, 3]))"

subsection \<open>str of an int, and print\<close>

fun str_nat :: "nat \<Rightarrow> string" where
  "str_nat n =
     (if n < 10 then [''0123456789'' ! n]
      else str_nat (n div 10) @ [''0123456789'' ! (n mod 10)])"

declare str_nat.simps [simp del]

definition py_str :: "int \<Rightarrow> string" where
  "py_str v = (if v < 0 then CHR ''-'' # str_nat (nat (- v)) else str_nat (nat v))"

definition newline :: string where
  "newline = [CHR 0x0A]"

text \<open>\<^verbatim>\<open>print(s, end=e)\<close> writes \<open>s\<close> and then \<open>e\<close> to standard output.\<close>

definition py_print :: "string \<Rightarrow> string \<Rightarrow> world \<Rightarrow> world" where
  "py_print s e w = w\<lparr>stdout := stdout w @ s @ e\<rparr>"

subsection \<open>Files\<close>

text \<open>
  \<^verbatim>\<open>open(p, m)\<close> first resolves the path, and raises what the resolution raises.
  \<^verbatim>\<open>open(p, 'rb')\<close> then needs a file there that the process may read, and refuses a
  directory. \<^verbatim>\<open>open(p, 'wb')\<close> refuses a directory, needs the right to write, and
  creates the file or truncates it to nothing. Either returns a new handle at position 0.
\<close>

definition new_handle :: "file_id \<Rightarrow> mode \<Rightarrow> world \<Rightarrow> nat \<times> world" where
  "new_handle f m w =
     (next_fd w,
      w\<lparr>open_files := (open_files w)(next_fd w \<mapsto> \<lparr>f_file = f, f_mode = m, f_pos = 0\<rparr>),
        next_fd := Suc (next_fd w)\<rparr>)"

definition py_open :: "path \<Rightarrow> mode \<Rightarrow> world \<Rightarrow> py_error + (nat \<times> world)" where
  "py_open p m w =
     (case locate w p of
        Inl e \<Rightarrow> Inl e
      | Inr f \<Rightarrow>
          (case m of
             RB \<Rightarrow>
               (case fs w f of
                  None \<Rightarrow> Inl FileNotFoundError
                | Some nd \<Rightarrow>
                    if denied w f RB then Inl PermissionError
                    else
                      (case nd of
                         Directory \<Rightarrow> Inl IsADirectoryError
                       | RegularFile c \<Rightarrow> Inr (new_handle f RB w)))
           | WB \<Rightarrow>
               (case fs w f of
                  Some Directory \<Rightarrow> Inl IsADirectoryError
                | _ \<Rightarrow>
                    if denied w f WB then Inl PermissionError
                    else Inr (new_handle f WB (w\<lparr>fs := (fs w)(f \<mapsto> RegularFile [])\<rparr>)))))"

text \<open>
  \<^verbatim>\<open>f.read(n)\<close>: up to \<open>n\<close> bytes from the position on, fewer (or none) at the end of the
  file; the position moves past what was read. Every call that reaches the file counts.
\<close>

definition py_read :: "nat \<Rightarrow> nat \<Rightarrow> world \<Rightarrow> py_error + (byte list \<times> world)" where
  "py_read fd n w =
     (case open_files w fd of
        None \<Rightarrow> Inl ValueError
      | Some f \<Rightarrow>
          if f_mode f \<noteq> RB then Inl UnsupportedOperation
          else
            (case fs w (f_file f) of
               Some (RegularFile c) \<Rightarrow>
                 (let data = take n (drop (f_pos f) c)
                  in Inr (data,
                       w\<lparr>open_files := (open_files w)(fd \<mapsto> f\<lparr>f_pos := f_pos f + length data\<rparr>),
                         read_calls := Suc (read_calls w)\<rparr>))
             | _ \<Rightarrow> Inl OSError))"

text \<open>
  \<^verbatim>\<open>f.write(data)\<close>: the bytes go into the file at the position (after zeros, should the
  position lie beyond the end), over what was there; the position moves past them.
\<close>

definition write_at :: "nat \<Rightarrow> byte list \<Rightarrow> byte list \<Rightarrow> byte list" where
  "write_at pos data c =
     take pos c @ replicate (pos - length c) 0 @ data @ drop (pos + length data) c"

definition py_write :: "nat \<Rightarrow> byte list \<Rightarrow> world \<Rightarrow> py_error + world" where
  "py_write fd data w =
     (case open_files w fd of
        None \<Rightarrow> Inl ValueError
      | Some f \<Rightarrow>
          if f_mode f \<noteq> WB then Inl UnsupportedOperation
          else
            (case fs w (f_file f) of
               Some (RegularFile c) \<Rightarrow>
                 Inr (w\<lparr>fs := (fs w)(f_file f \<mapsto> RegularFile (write_at (f_pos f) data c)),
                        open_files := (open_files w)(fd \<mapsto> f\<lparr>f_pos := f_pos f + length data\<rparr>)\<rparr>)
             | _ \<Rightarrow> Inl OSError))"

text \<open>\<^verbatim>\<open>f.close()\<close> takes the handle out of the table; closing twice does nothing more.\<close>

definition py_close :: "nat \<Rightarrow> world \<Rightarrow> world" where
  "py_close fd w = w\<lparr>open_files := (open_files w)(fd := None)\<rparr>"

text \<open>\<^verbatim>\<open>os.fstat(f.fileno()).st_size\<close>: the file's length in bytes now.\<close>

definition fstat_size :: "nat \<Rightarrow> world \<Rightarrow> py_error + nat" where
  "fstat_size fd w =
     (case open_files w fd of
        None \<Rightarrow> Inl ValueError
      | Some f \<Rightarrow>
          (case fs w (f_file f) of
             Some (RegularFile c) \<Rightarrow> Inr (length c)
           | _ \<Rightarrow> Inl OSError))"

section \<open>convert\_to\_little.py\<close>

text \<open>
  The loop \<^verbatim>\<open>while data:\<close> of the script, entered with the chunk just read. It returns the
  exception that left it, if one did, and the world then. Nothing bounds the loop in
  every world (a read handle and a write handle on one file can feed each other), so it
  lives in the option monad: \<open>None\<close> is a loop that never ends.
\<close>

partial_function (option) conv_while ::
  "nat \<Rightarrow> nat \<Rightarrow> byte list \<Rightarrow> world \<Rightarrow> (py_error option \<times> world) option" where
  "conv_while in_file out_file data w =
     (if data = [] then Some (None, w)
      else
        (case unpack_I_be data of
           Inl e \<Rightarrow> Some (Some e, w)
         | Inr v \<Rightarrow>
             (case pack_I_le v of
                Inl e \<Rightarrow> Some (Some e, w)
              | Inr new_value \<Rightarrow>
                  (case py_write out_file new_value w of
                     Inl e \<Rightarrow> Some (Some e, w)
                   | Inr w1 \<Rightarrow>
                       (case py_read in_file 4 w1 of
                          Inl e \<Rightarrow> Some (Some e, w1)
                        | Inr (data', w2) \<Rightarrow> conv_while in_file out_file data' w2)))))"

declare conv_while.simps [code]

text \<open>The body of the \<^verbatim>\<open>try\<close>: the first read, then the loop.\<close>

definition conv_try :: "nat \<Rightarrow> nat \<Rightarrow> world \<Rightarrow> (py_error option \<times> world) option" where
  "conv_try in_file out_file w =
     (case py_read in_file 4 w of
        Inl e \<Rightarrow> Some (Some e, w)
      | Inr (data, w1) \<Rightarrow> conv_while in_file out_file data w1)"

text \<open>
  The script: the check of \<^verbatim>\<open>len(sys.argv)\<close>, the two \<^verbatim>\<open>open\<close> calls (outside the
  \<^verbatim>\<open>try\<close>), the \<^verbatim>\<open>try\<close>, and the \<^verbatim>\<open>finally\<close> that closes both files whatever happened
  in the \<^verbatim>\<open>try\<close>.
\<close>

definition convert_to_little :: "string list \<Rightarrow> world \<Rightarrow> (outcome \<times> world) option" where
  "convert_to_little argv w =
     (if length argv \<noteq> 3 then
        (case argv of
           [] \<Rightarrow> Some (Uncaught IndexError, w)
         | a0 # _ \<Rightarrow>
             Some (Exit 1, py_print (''Usage: '' @ a0 @ '' <in_file> <out_file>'') newline w))
      else
        (case py_open (argv ! 1) RB w of
           Inl e \<Rightarrow> Some (Uncaught e, w)
         | Inr (in_file, w1) \<Rightarrow>
             (case py_open (argv ! 2) WB w1 of
                Inl e \<Rightarrow> Some (Uncaught e, w1)
              | Inr (out_file, w2) \<Rightarrow>
                  (case conv_try in_file out_file w2 of
                     None \<Rightarrow> None
                   | Some (r, w3) \<Rightarrow>
                       (let w4 = py_close in_file w3;
                            w5 = py_close out_file w4
                        in Some (case r of None \<Rightarrow> Exit 0 | Some e \<Rightarrow> Uncaught e, w5))))))"

section \<open>read\_binary.py\<close>

text \<open>
  The loop \<^verbatim>\<open>for i in range(iteration_count)\<close>: read 4 bytes and unpack them inside the
  \<^verbatim>\<open>try\<close>; \<^verbatim>\<open>struct.error\<close> breaks out of the loop, any other exception leaves the
  script; then print the result.
\<close>

fun dump_for :: "nat \<Rightarrow> nat \<Rightarrow> string \<Rightarrow> world \<Rightarrow> py_error option \<times> world" where
  "dump_for 0 binary_file ending w = (None, w)"
| "dump_for (Suc n) binary_file ending w =
     (case py_read binary_file 4 w of
        Inl e \<Rightarrow> (if e = StructError then (None, w) else (Some e, w))
      | Inr (data, w1) \<Rightarrow>
          (case unpack_I_le data of
             Inl e \<Rightarrow> (if e = StructError then (None, w1) else (Some e, w1))
           | Inr result \<Rightarrow> dump_for n binary_file ending (py_print (py_str result) ending w1)))"

text \<open>The loop and the end of the script after it.\<close>

definition dump_words :: "nat \<Rightarrow> nat \<Rightarrow> string \<Rightarrow> world \<Rightarrow> outcome \<times> world" where
  "dump_words iteration_count binary_file ending w =
     (case dump_for iteration_count binary_file ending w of
        (None, w') \<Rightarrow> (Exit 0, w')
      | (Some e, w') \<Rightarrow> (Uncaught e, w'))"

text \<open>
  The script: the usage check, the separator, \<^verbatim>\<open>open\<close>, the word count from the file's
  size, the loop. The file is never closed.
\<close>

definition read_binary :: "string list \<Rightarrow> world \<Rightarrow> outcome \<times> world" where
  "read_binary args w =
     (if length args < 2 then
        (case args of
           [] \<Rightarrow> (Uncaught IndexError, w)
         | a0 # _ \<Rightarrow>
             (Exit 1,
              py_print (CHR 0x09 # ''Default seperator is newline'') newline
                (py_print [] newline
                  (py_print (''Usage: '' @ a0 @ '' <filename> [seperator]'') newline w))))
      else
        (let filename = args ! 1;
             ending = (if length args > 2 then args ! 2 else newline)
         in case py_open filename RB w of
              Inl e \<Rightarrow> (Uncaught e, w)
            | Inr (binary_file, w1) \<Rightarrow>
                (case fstat_size binary_file w1 of
                   Inl e \<Rightarrow> (Uncaught e, w1)
                 | Inr st_size \<Rightarrow> dump_words (st_size div 4) binary_file ending w1)))"

section \<open>Functions used to state the properties\<close>

text \<open>
  These are not code of the repository: they say what the scripts are expected to
  compute. \<open>swap_words\<close> reverses every complete group of 4 bytes and drops an incomplete
  last group; \<open>word_at bs i\<close> is the \<open>i\<close>-th group of 4 bytes of \<open>bs\<close>.
\<close>

fun swap_words :: "byte list \<Rightarrow> byte list" where
  "swap_words (a # b # c # d # rest) = d # c # b # a # swap_words rest"
| "swap_words _ = []"

definition word_at :: "byte list \<Rightarrow> nat \<Rightarrow> byte list" where
  "word_at bs i = take 4 (drop (4 * i) bs)"

text \<open>
  \<open>u32_le\<close> and \<open>u32_be\<close> read 4 bytes as an unsigned integer, least and most
  significant byte first. \<open>dump_range ending c k n\<close> is the text of the words \<open>k\<close> up
  to (not including) \<open>n\<close> of \<open>c\<close>: each word's little-endian value in decimal, followed by
  the separator.
\<close>

definition u32_le :: "byte list \<Rightarrow> int" where
  "u32_le bs = uint (bs ! 0) + 2 ^ 8 * uint (bs ! 1) + 2 ^ 16 * uint (bs ! 2) + 2 ^ 24 * uint (bs ! 3)"

definition u32_be :: "byte list \<Rightarrow> int" where
  "u32_be bs = 2 ^ 24 * uint (bs ! 0) + 2 ^ 16 * uint (bs ! 1) + 2 ^ 8 * uint (bs ! 2) + uint (bs ! 3)"

definition dump_range :: "string \<Rightarrow> byte list \<Rightarrow> nat \<Rightarrow> nat \<Rightarrow> string" where
  "dump_range ending c k n = concat (map (\<lambda>i. py_str (u32_le (word_at c i)) @ ending) [k..<n])"

text \<open>
  \<open>lines_of\<close> cuts a text into its lines, as \<^verbatim>\<open>str.splitlines\<close> does at newline
  characters.
\<close>

fun lines_of :: "string \<Rightarrow> string list" where
  "lines_of [] = []"
| "lines_of (ch # s) =
     (if ch = CHR 0x0A then [] # lines_of s
      else (case lines_of s of [] \<Rightarrow> [[ch]] | l # ls \<Rightarrow> (ch # l) # ls))"

section \<open>Bytes and 32-bit values\<close>

lemma length4_cases:
  assumes "length xs = 4"
  obtains a b c d where "xs = [a, b, c, d]"
proof -
  from assms obtain a r1 where 1: "xs = a # r1" "length r1 = 3" by (cases xs) auto
  then obtain b r2 where 2: "r1 = b # r2" "length r2 = 2" by (cases r1) auto
  then obtain c r3 where 3: "r2 = c # r3" "length r3 = 1" by (cases r2) auto
  then obtain d where 4: "r3 = [d]" by (cases r3) auto
  from 1 2 3 4 that show thesis by simp
qed

lemma uint_byte_bounds: "0 \<le> uint (b::byte)" "uint (b::byte) < 256"
  using uint_lt2p [of b] by simp_all

lemma unpack_I_be_4:
  "unpack_I_be [a, b, c, d] = Inr (((uint a * 256 + uint b) * 256 + uint c) * 256 + uint d)"
  by (simp add: unpack_I_be_def)

lemma unpack_I_le_4:
  "unpack_I_le [a, b, c, d] = Inr (uint a + 256 * (uint b + 256 * (uint c + 256 * uint d)))"
  by (simp add: unpack_I_le_def)

lemma be_value_range:
  "0 \<le> ((uint (a::byte) * 256 + uint (b::byte)) * 256 + uint (c::byte)) * 256 + uint (d::byte)"
  "((uint (a::byte) * 256 + uint (b::byte)) * 256 + uint (c::byte)) * 256 + uint (d::byte) < 2 ^ 32"
  using uint_byte_bounds [of a] uint_byte_bounds [of b] uint_byte_bounds [of c] uint_byte_bounds [of d]
  by simp_all

lemma byte_of_sum: "word_of_int (x * 256 + uint (b::byte)) = b"
proof -
  have "(word_of_int (x * 256 + uint b) :: byte) = word_of_int (uint b)"
    by (simp only: word_of_int_eq_iff) (simp add: take_bit_eq_mod)
  then show ?thesis by (simp only: word_of_int_uint)
qed

lemma div_256_step: "(x * 256 + uint (b::byte)) div 256 = (x::int)"
  using uint_byte_bounds [of b] by simp

lemma pack_I_le_be_value:
  "pack_I_le (((uint a * 256 + uint b) * 256 + uint c) * 256 + uint d) = Inr [d, c, b, (a::byte)]"
proof -
  let ?v = "((uint a * 256 + uint b) * 256 + uint c) * 256 + uint d"
  have d1: "?v div 256 = (uint a * 256 + uint b) * 256 + uint c"
    by (rule div_256_step)
  have "?v div 256 ^ 2 = (?v div 256) div 256"
    by (simp only: power2_eq_square zdiv_zmult2_eq)
  then have d2: "?v div 256 ^ 2 = uint a * 256 + uint b"
    by (simp only: d1 div_256_step)
  have "?v div 256 ^ 3 = (?v div 256 ^ 2) div 256"
    by (simp only: power3_eq_cube power2_eq_square zdiv_zmult2_eq)
  then have d3: "?v div 256 ^ 3 = uint a"
    using uint_byte_bounds [of b] by (simp only: d2 div_256_step)
  have r: "\<not> (?v < 0 \<or> 2 ^ 32 \<le> ?v)"
    using be_value_range [of a b c d] by linarith
  have "pack_I_le ?v =
      Inr [word_of_int (?v div 256 ^ 0), word_of_int (?v div 256 ^ 1),
           word_of_int (?v div 256 ^ 2), word_of_int (?v div 256 ^ 3)]"
    unfolding pack_I_le_def by (simp only: r if_False list.map)
  also have "\<dots> = Inr [d, c, b, a]"
    by (simp only: power_0 power_one_right div_by_1 d1 d2 d3 byte_of_sum word_of_int_uint)
  finally show ?thesis .
qed

lemma unpack_I_le_word:
  assumes "length bs = 4"
  shows "unpack_I_le bs = Inr (u32_le bs)"
proof -
  from assms obtain a b c d where "bs = [a, b, c, d]" by (rule length4_cases)
  then show ?thesis by (simp add: unpack_I_le_4 u32_le_def)
qed

lemma unpack_I_be_word:
  assumes "length bs = 4"
  shows "unpack_I_be bs = Inr (u32_be bs)"
proof -
  from assms obtain a b c d where "bs = [a, b, c, d]" by (rule length4_cases)
  then show ?thesis by (simp add: unpack_I_be_4 u32_be_def)
qed

lemma u32_le_rev:
  assumes "length bs = 4"
  shows "u32_le (rev bs) = u32_be bs"
proof -
  from assms obtain a b c d where "bs = [a, b, c, d]" by (rule length4_cases)
  then show ?thesis by (simp add: u32_le_def u32_be_def)
qed

lemma u32_le_range:
  assumes "length bs = 4"
  shows "0 \<le> u32_le bs" "u32_le bs < 2 ^ 32"
proof -
  from assms obtain a b c d where bs: "bs = [a, b, c, d]" by (rule length4_cases)
  show "0 \<le> u32_le bs"
    using uint_byte_bounds [of a] uint_byte_bounds [of b] uint_byte_bounds [of c] uint_byte_bounds [of d]
    by (simp add: bs u32_le_def)
  show "u32_le bs < 2 ^ 32"
    using uint_byte_bounds [of a] uint_byte_bounds [of b] uint_byte_bounds [of c] uint_byte_bounds [of d]
    by (simp add: bs u32_le_def)
qed

section \<open>Lists of words\<close>

lemma div4_add4 [simp]: "(4 + n) div 4 = Suc (n div 4)" for n :: nat
  by simp

lemma drop_add4_Cons [simp]: "drop (4 + n) (a # b # c # d # xs) = drop n xs"
proof -
  have "drop (4 + n) (a # b # c # d # xs) = drop n (drop 4 (a # b # c # d # xs))"
    by (simp only: drop_drop add.commute)
  then show ?thesis by simp
qed

lemma take_add4_Cons [simp]: "take (4 + n) (a # b # c # d # xs) = a # b # c # d # take n xs"
  by (simp add: numeral_eq_Suc)

lemma swap_words_short: "length xs < 4 \<Longrightarrow> swap_words xs = []"
  by (induction xs rule: swap_words.induct) simp_all

lemma length_swap_words: "length (swap_words xs) = 4 * (length xs div 4)"
  by (induction xs rule: swap_words.induct) simp_all

lemma swap_words_twice: "swap_words (swap_words xs) = take (4 * (length xs div 4)) xs"
  by (induction xs rule: swap_words.induct) simp_all

lemma swap_words_take: "swap_words (take (4 * (length xs div 4)) xs) = swap_words xs"
  by (induction xs rule: swap_words.induct) simp_all

lemma word_at_swap_words:
  "i < length xs div 4 \<Longrightarrow> word_at (swap_words xs) i = rev (word_at xs i)"
proof (induction xs arbitrary: i rule: swap_words.induct)
  case (1 a b c d rest)
  show ?case
  proof (cases i)
    case 0
    then show ?thesis by (simp add: word_at_def)
  next
    case (Suc j)
    with 1 have "word_at (swap_words rest) j = rev (word_at rest j)" by simp
    with Suc show ?thesis by (simp add: word_at_def)
  qed
qed (simp_all add: word_at_def)

lemma length_word_at: "i < length xs div 4 \<Longrightarrow> length (word_at xs i) = 4"
  by (auto simp: word_at_def)

section \<open>The loop of the Converter\<close>

lemma write_at_end: "write_at (length c) data c = c @ data"
  by (simp add: write_at_def)

lemma py_write_step:
  assumes "open_files w fout = Some fo" "f_mode fo = WB" "f_file fo = lo"
    "fs w lo = Some (RegularFile out)" "f_pos fo = length out"
  shows "py_write fout data w =
     Inr (w\<lparr>fs := (fs w)(lo \<mapsto> RegularFile (out @ data)),
            open_files := (open_files w)(fout \<mapsto> fo\<lparr>f_pos := length out + length data\<rparr>)\<rparr>)"
  using assms by (simp add: py_write_def write_at_end)

lemma py_read_step:
  assumes "open_files w fin = Some fi" "f_mode fi = RB" "f_file fi = li"
    "fs w li = Some (RegularFile c)"
  shows "py_read fin n w =
     Inr (take n (drop (f_pos fi) c),
          w\<lparr>open_files := (open_files w)(fin \<mapsto> fi\<lparr>f_pos := f_pos fi + length (take n (drop (f_pos fi) c))\<rparr>),
            read_calls := Suc (read_calls w)\<rparr>)"
  using assms by (simp add: py_read_def Let_def)

lemma conv_while_run:
  assumes "open_files w fin = Some fi" "f_mode fi = RB" "f_file fi = li"
    and "f_pos fi = p + length (take 4 (drop p c))"
    and "open_files w fout = Some fo" "f_mode fo = WB" "f_file fo = lo"
    and "f_pos fo = length out"
    and "fin \<noteq> fout" "li \<noteq> lo"
    and "fs w li = Some (RegularFile c)" "fs w lo = Some (RegularFile out)"
  shows "\<exists>w'. conv_while fin fout (take 4 (drop p c)) w =
           Some (if 4 dvd length (drop p c) then None else Some StructError, w')
         \<and> fs w' = (fs w)(lo \<mapsto> RegularFile (out @ swap_words (drop p c)))
         \<and> stdout w' = stdout w \<and> next_fd w' = next_fd w
         \<and> (\<forall>fd. fd \<noteq> fin \<longrightarrow> fd \<noteq> fout \<longrightarrow> open_files w' fd = open_files w fd)"
  using assms
proof (induction "length (drop p c)" arbitrary: w p fi fo out rule: less_induct)
  case less
  let ?rest = "drop p c"
  consider (exhausted) "?rest = []" | (short) "?rest \<noteq> []" "length ?rest < 4" | (full) "4 \<le> length ?rest"
    by fastforce
  then show ?case
  proof cases
    case exhausted
    have "(fs w)(lo \<mapsto> RegularFile out) = fs w"
      using less.prems(12) by (simp add: fun_upd_idem)
    with exhausted show ?thesis
      by (subst conv_while.simps) simp
  next
    case short
    then have ndvd: "\<not> 4 dvd length ?rest"
      by (auto dest: dvd_imp_le)
    have t: "take 4 ?rest = ?rest" using short by simp
    have u: "unpack_I_be ?rest = Inl StructError"
      using short by (simp add: unpack_I_be_def)
    have "(fs w)(lo \<mapsto> RegularFile out) = fs w"
      using less.prems(12) by (simp add: fun_upd_idem)
    with short ndvd u show ?thesis
      by (subst conv_while.simps) (simp add: t swap_words_short)
  next
    case full
    then obtain a b c' d rest' where rest: "?rest = a # b # c' # d # rest'"
      by (cases ?rest; simp; cases "tl ?rest"; simp; cases "tl (tl ?rest)"; simp;
          cases "tl (tl (tl ?rest))"; simp)
    have data: "take 4 ?rest = [a, b, c', d]" by (simp add: rest)
    have rest': "drop (p + 4) c = rest'"
    proof -
      have "drop (p + 4) c = drop 4 (drop p c)"
        by (simp only: drop_drop add.commute)
      then show ?thesis by (simp add: rest)
    qed
    define w1 where "w1 = w\<lparr>fs := (fs w)(lo \<mapsto> RegularFile (out @ [d, c', b, a])),
            open_files := (open_files w)(fout \<mapsto> fo\<lparr>f_pos := length out + 4\<rparr>)\<rparr>"
    have wr: "py_write fout [d, c', b, a] w = Inr w1"
    proof -
      have l4: "length [d, c', b, a] = 4" by simp
      show ?thesis
        by (simp only: py_write_step [OF less.prems(5,6,7,12,8), of "[d, c', b, a]"] l4 w1_def)
    qed
    have fpos: "f_pos fi = p + 4" using less.prems(4) data by simp
    define w2 where "w2 = w1\<lparr>open_files := (open_files w1)(fin \<mapsto> fi\<lparr>f_pos := p + 4 + length (take 4 (drop (p + 4) c))\<rparr>),
        read_calls := Suc (read_calls w1)\<rparr>"
    have rd: "py_read fin 4 w1 = Inr (take 4 (drop (p + 4) c), w2)"
      using py_read_step [of w1 fin fi li c 4] less.prems(1,2,3,9,10,11)
      by (simp add: w1_def w2_def fpos)
    have step: "conv_while fin fout (take 4 ?rest) w = conv_while fin fout (take 4 (drop (p + 4) c)) w2"
      by (subst conv_while.simps)
        (simp only: data list.distinct if_False unpack_I_be_4 sum.case pack_I_le_be_value wr rd
          prod.case)
    have smaller: "length (drop (p + 4) c) < length ?rest"
      using rest rest' by simp
    have "\<exists>w'. conv_while fin fout (take 4 (drop (p + 4) c)) w2 =
           Some (if 4 dvd length (drop (p + 4) c) then None else Some StructError, w')
         \<and> fs w' = (fs w2)(lo \<mapsto> RegularFile ((out @ [d, c', b, a]) @ swap_words (drop (p + 4) c)))
         \<and> stdout w' = stdout w2 \<and> next_fd w' = next_fd w2
         \<and> (\<forall>fd. fd \<noteq> fin \<longrightarrow> fd \<noteq> fout \<longrightarrow> open_files w' fd = open_files w2 fd)"
      apply (rule less.hyps [OF smaller, of w2 "fi\<lparr>f_pos := p + 4 + length (take 4 (drop (p + 4) c))\<rparr>" "fo\<lparr>f_pos := length out + 4\<rparr>"])
      using less.prems by (simp_all add: w2_def w1_def)
    then obtain w' where w': "conv_while fin fout (take 4 (drop (p + 4) c)) w2 =
           Some (if 4 dvd length (drop (p + 4) c) then None else Some StructError, w')"
         "fs w' = (fs w2)(lo \<mapsto> RegularFile ((out @ [d, c', b, a]) @ swap_words (drop (p + 4) c)))"
         "stdout w' = stdout w2" "next_fd w' = next_fd w2"
         "\<forall>fd. fd \<noteq> fin \<longrightarrow> fd \<noteq> fout \<longrightarrow> open_files w' fd = open_files w2 fd"
      by blast
    have dvd: "4 dvd length ?rest \<longleftrightarrow> 4 dvd length (drop (p + 4) c)"
      by (simp only: rest rest') (simp, presburger)
    have sw: "swap_words ?rest = [d, c', b, a] @ swap_words (drop (p + 4) c)"
      by (simp only: rest rest') simp
    show ?thesis
      apply (rule exI [of _ w'])
      apply (simp only: step w'(1) dvd sw)
      using w'(2,3,4,5) apply (simp add: w2_def w1_def)
      done
  qed
qed

section \<open>A run of the Converter\<close>

lemma py_open_RB_file:
  assumes "locate w p = Inr f" and "fs w f = Some (RegularFile c)" and "\<not> denied w f RB"
  shows "py_open p RB w = Inr (new_handle f RB w)"
  using assms by (simp add: py_open_def)

lemma py_open_WB_ok:
  assumes "locate w p = Inr f" and "fs w f \<noteq> Some Directory" and "\<not> denied w f WB"
  shows "py_open p WB w = Inr (new_handle f WB (w\<lparr>fs := (fs w)(f \<mapsto> RegularFile [])\<rparr>))"
  using assms by (simp add: py_open_def split: option.splits node.splits)

lemma conv_try_run:
  assumes "open_files w fin = Some fi" "f_mode fi = RB" "f_file fi = li" "f_pos fi = 0"
    and "open_files w fout = Some fo" "f_mode fo = WB" "f_file fo = lo" "f_pos fo = 0"
    and "fin \<noteq> fout" "li \<noteq> lo"
    and "fs w li = Some (RegularFile c)" "fs w lo = Some (RegularFile [])"
  shows "\<exists>w'. conv_try fin fout w =
           Some (if 4 dvd length c then None else Some StructError, w')
         \<and> fs w' = (fs w)(lo \<mapsto> RegularFile (swap_words c))
         \<and> stdout w' = stdout w \<and> next_fd w' = next_fd w
         \<and> (\<forall>fd. fd \<noteq> fin \<longrightarrow> fd \<noteq> fout \<longrightarrow> open_files w' fd = open_files w fd)"
proof -
  define w1 where "w1 = w\<lparr>open_files := (open_files w)(fin \<mapsto> fi\<lparr>f_pos := f_pos fi + length (take 4 (drop (f_pos fi) c))\<rparr>),
      read_calls := Suc (read_calls w)\<rparr>"
  have rd: "py_read fin 4 w = Inr (take 4 (drop 0 c), w1)"
    using py_read_step [OF assms(1,2,3,11), of 4] by (simp add: w1_def assms(4))
  have "\<exists>w'. conv_while fin fout (take 4 (drop 0 c)) w1 =
           Some (if 4 dvd length (drop 0 c) then None else Some StructError, w')
         \<and> fs w' = (fs w1)(lo \<mapsto> RegularFile ([] @ swap_words (drop 0 c)))
         \<and> stdout w' = stdout w1 \<and> next_fd w' = next_fd w1
         \<and> (\<forall>fd. fd \<noteq> fin \<longrightarrow> fd \<noteq> fout \<longrightarrow> open_files w' fd = open_files w1 fd)"
    apply (rule conv_while_run [of w1 fin "fi\<lparr>f_pos := f_pos fi + length (take 4 (drop (f_pos fi) c))\<rparr>" li 0 c fout fo lo "[]"])
    using assms by (simp_all add: w1_def)
  then show ?thesis
    unfolding conv_try_def by (simp add: rd w1_def)
qed

lemma converter_run:
  assumes "lc pin = Inr li" and "lc pout = Inr lo" and "li \<noteq> lo"
    and "files li = Some (RegularFile c)" and "\<not> dn li RB"
    and "files lo \<noteq> Some Directory" and "\<not> dn lo WB"
  shows "\<exists>w'. convert_to_little [a0, pin, pout] (initial_world lc dn files) =
           Some (if 4 dvd length c then Exit 0 else Uncaught StructError, w')
         \<and> fs w' = files(lo \<mapsto> RegularFile (swap_words c))
         \<and> open_files w' = Map.empty \<and> stdout w' = []"
proof -
  let ?w = "initial_world lc dn files"
  define w1 where "w1 = snd (new_handle li RB ?w)"
  define w2 where "w2 = snd (new_handle lo WB (w1\<lparr>fs := (fs w1)(lo \<mapsto> RegularFile [])\<rparr>))"
  have o1: "py_open pin RB ?w = Inr (3, w1)"
    using py_open_RB_file [of ?w pin li c] assms(1,4,5)
    by (simp add: w1_def initial_world_def new_handle_def)
  have fs1: "fs w1 = files" by (simp add: w1_def new_handle_def initial_world_def)
  have env1: "locate w1 = lc" "denied w1 = dn"
    by (simp_all add: w1_def new_handle_def initial_world_def)
  have o2: "py_open pout WB w1 = Inr (4, w2)"
    using py_open_WB_ok [of w1 pout lo] assms(2,6,7)
    by (simp add: fs1 env1) (simp add: w2_def w1_def initial_world_def new_handle_def)
  have "\<exists>w'. conv_try 3 4 w2 =
           Some (if 4 dvd length c then None else Some StructError, w')
         \<and> fs w' = (fs w2)(lo \<mapsto> RegularFile (swap_words c))
         \<and> stdout w' = stdout w2 \<and> next_fd w' = next_fd w2
         \<and> (\<forall>fd. fd \<noteq> 3 \<longrightarrow> fd \<noteq> 4 \<longrightarrow> open_files w' fd = open_files w2 fd)"
    apply (rule conv_try_run [of w2 3 "\<lparr>f_file = li, f_mode = RB, f_pos = 0\<rparr>" li 4
          "\<lparr>f_file = lo, f_mode = WB, f_pos = 0\<rparr>" lo c])
    using assms by (simp_all add: w2_def w1_def new_handle_def initial_world_def)
  then obtain w3 where w3: "conv_try 3 4 w2 =
           Some (if 4 dvd length c then None else Some StructError, w3)"
      "fs w3 = (fs w2)(lo \<mapsto> RegularFile (swap_words c))"
      "stdout w3 = stdout w2"
      "\<forall>fd. fd \<noteq> 3 \<longrightarrow> fd \<noteq> 4 \<longrightarrow> open_files w3 fd = open_files w2 fd"
    by blast
  have fs2: "fs w2 = files(lo \<mapsto> RegularFile [])"
    by (simp add: w2_def new_handle_def fs1)
  have out2: "stdout w2 = []"
    by (simp add: w2_def w1_def new_handle_def initial_world_def)
  have tab2: "\<And>fd. fd \<noteq> 3 \<Longrightarrow> fd \<noteq> 4 \<Longrightarrow> open_files w2 fd = None"
    by (simp add: w2_def w1_def new_handle_def initial_world_def)
  have closed: "open_files (py_close 4 (py_close 3 w3)) = Map.empty"
    using w3(4) tab2 by (auto simp: py_close_def fun_eq_iff)
  have run: "convert_to_little [a0, pin, pout] ?w =
      Some (if 4 dvd length c then Exit 0 else Uncaught StructError, py_close 4 (py_close 3 w3))"
    unfolding convert_to_little_def by (simp add: o1 o2 w3(1) Let_def)
  show ?thesis
    apply (rule exI [of _ "py_close 4 (py_close 3 w3)"])
    apply (simp only: run closed)
    apply (simp add: py_close_def w3(2,3) fs2 out2)
    done
qed

lemma conv_while_empty: "conv_while fin fout [] w = Some (None, w)"
  by (subst conv_while.simps) simp

lemma converter_run_same:
  assumes "lc pin = Inr l" and "lc pout = Inr l"
    and "files l = Some (RegularFile c)" and "\<not> dn l RB" and "\<not> dn l WB"
  shows "\<exists>w'. convert_to_little [a0, pin, pout] (initial_world lc dn files) = Some (Exit 0, w')
      \<and> fs w' = files(l \<mapsto> RegularFile []) \<and> open_files w' = Map.empty"
  using assms
  by (simp add: convert_to_little_def py_open_def new_handle_def initial_world_def conv_try_def
      py_read_def conv_while_empty py_close_def)

lemma converter_usage:
  assumes "argv \<noteq> []" and "length argv \<noteq> 3"
  shows "convert_to_little argv w =
    Some (Exit 1, w\<lparr>stdout := stdout w @ ''Usage: '' @ hd argv @ '' <in_file> <out_file>'' @ newline\<rparr>)"
  using assms by (cases argv) (simp_all add: convert_to_little_def py_print_def)

section \<open>The loop of the Dumper\<close>

lemma length_word_at_short:
  "length xs div 4 \<le> i \<Longrightarrow> length (word_at xs i) \<noteq> 4"
proof -
  assume "length xs div 4 \<le> i"
  then have "length xs < 4 * i + 4" by presburger
  then show ?thesis by (simp add: word_at_def)
qed

lemma dump_for_run:
  assumes "open_files w f = Some fi" "f_mode fi = RB" "f_file fi = l"
    and "fs w l = Some (RegularFile c)" "f_pos fi = 4 * k"
  shows "\<exists>w'. dump_for n f ending w = (None, w')
      \<and> stdout w' = stdout w @ dump_range ending c k (min (k + n) (length c div 4))
      \<and> read_calls w' = read_calls w + min n (Suc (length c div 4 - k))
      \<and> fs w' = fs w \<and> next_fd w' = next_fd w
      \<and> open_files w' f \<noteq> None
      \<and> (\<forall>fd. fd \<noteq> f \<longrightarrow> open_files w' fd = open_files w fd)"
  using assms
proof (induction n arbitrary: w fi k)
  case 0
  then show ?case by (simp add: dump_range_def)
next
  case (Suc n)
  define w1 where "w1 = w\<lparr>open_files := (open_files w)(f \<mapsto> fi\<lparr>f_pos := f_pos fi + length (take 4 (drop (f_pos fi) c))\<rparr>),
      read_calls := Suc (read_calls w)\<rparr>"
  have rd: "py_read f 4 w = Inr (word_at c k, w1)"
    using py_read_step [OF Suc.prems(1,2,3,4), of 4]
    by (simp add: w1_def word_at_def Suc.prems(5))
  show ?case
  proof (cases "k < length c div 4")
    case True
    then have l4: "length (word_at c k) = 4" by (rule length_word_at)
    define w2 where "w2 = py_print (py_str (u32_le (word_at c k))) ending w1"
    have l4': "length (take 4 (drop (4 * k) c)) = 4"
      using l4 by (simp only: word_at_def)
    have "\<exists>w'. dump_for n f ending w2 = (None, w')
      \<and> stdout w' = stdout w2 @ dump_range ending c (Suc k) (min (Suc k + n) (length c div 4))
      \<and> read_calls w' = read_calls w2 + min n (Suc (length c div 4 - Suc k))
      \<and> fs w' = fs w2 \<and> next_fd w' = next_fd w2
      \<and> open_files w' f \<noteq> None
      \<and> (\<forall>fd. fd \<noteq> f \<longrightarrow> open_files w' fd = open_files w2 fd)"
      apply (rule Suc.IH [of w2 "fi\<lparr>f_pos := f_pos fi + length (take 4 (drop (f_pos fi) c))\<rparr>" "Suc k"])
      using Suc.prems l4' by (simp_all add: w2_def w1_def py_print_def)
    then obtain w' where w': "dump_for n f ending w2 = (None, w')"
      "stdout w' = stdout w2 @ dump_range ending c (Suc k) (min (Suc k + n) (length c div 4))"
      "read_calls w' = read_calls w2 + min n (Suc (length c div 4 - Suc k))"
      "fs w' = fs w2" "next_fd w' = next_fd w2" "open_files w' f \<noteq> None"
      "\<forall>fd. fd \<noteq> f \<longrightarrow> open_files w' fd = open_files w2 fd"
      by blast
    have step: "dump_for (Suc n) f ending w = dump_for n f ending w2"
      by (simp add: rd unpack_I_le_word [OF l4] w2_def)
    have lt: "k < min (k + Suc n) (length c div 4)" using True by simp
    have rng: "dump_range ending c k (min (k + Suc n) (length c div 4)) =
        py_str (u32_le (word_at c k)) @ ending @ dump_range ending c (Suc k) (min (Suc k + n) (length c div 4))"
      unfolding dump_range_def by (subst upt_conv_Cons [OF lt]) simp
    have cnt: "read_calls w2 + min n (Suc (length c div 4 - Suc k))
        = read_calls w + min (Suc n) (Suc (length c div 4 - k))"
      using True by (simp add: w2_def w1_def py_print_def Suc_diff_Suc)
    show ?thesis
      apply (rule exI [of _ w'])
      apply (simp only: step w'(1) rng w'(3) cnt)
      using w'(2,4,5,6,7) apply (simp add: w2_def w1_def py_print_def)
      done
  next
    case False
    then have "length (word_at c k) \<noteq> 4" by (simp add: length_word_at_short)
    then have un: "unpack_I_le (word_at c k) = Inl StructError"
      by (simp add: unpack_I_le_def)
    have e: "min (Suc (k + n)) (length c div 4) \<le> k" using False by simp
    have rng: "dump_range ending c k (min (Suc (k + n)) (length c div 4)) = []"
      unfolding dump_range_def using e by simp
    have z: "length c div 4 - k = 0" using False by simp
    show ?thesis
      by (simp add: rd un rng z) (simp add: w1_def)
  qed
qed

section \<open>A run of the Dumper\<close>

lemma dump_words_run:
  assumes "open_files w f = Some fi" "f_mode fi = RB" "f_file fi = l"
    and "fs w l = Some (RegularFile c)" "f_pos fi = 4 * k"
  shows "\<exists>w'. dump_words n f ending w = (Exit 0, w')
      \<and> stdout w' = stdout w @ dump_range ending c k (min (k + n) (length c div 4))
      \<and> read_calls w' = read_calls w + min n (Suc (length c div 4 - k))
      \<and> fs w' = fs w
      \<and> open_files w' f \<noteq> None"
proof -
  from dump_for_run [OF assms, of n ending]
  obtain w' where "dump_for n f ending w = (None, w')"
    "stdout w' = stdout w @ dump_range ending c k (min (k + n) (length c div 4))"
    "read_calls w' = read_calls w + min n (Suc (length c div 4 - k))"
    "fs w' = fs w" "open_files w' f \<noteq> None"
    by blast
  then show ?thesis by (simp add: dump_words_def)
qed

lemma dumper_run:
  assumes "2 \<le> length args" and "lc (args ! 1) = Inr l"
    and "files l = Some (RegularFile c)" and "\<not> dn l RB"
  shows "\<exists>w'. read_binary args (initial_world lc dn files) = (Exit 0, w')
      \<and> stdout w' = dump_range (if 2 < length args then args ! 2 else newline) c 0 (length c div 4)
      \<and> fs w' = files
      \<and> open_files w' 3 \<noteq> None"
proof -
  let ?w = "initial_world lc dn files"
  let ?e = "if 2 < length args then args ! 2 else newline"
  define w1 where "w1 = snd (new_handle l RB ?w)"
  have o1: "py_open (args ! 1) RB ?w = Inr (3, w1)"
    using py_open_RB_file [of ?w "args ! 1" l c] assms(2,3,4)
    by (simp add: w1_def initial_world_def new_handle_def)
  have tab: "open_files w1 3 = Some \<lparr>f_file = l, f_mode = RB, f_pos = 0\<rparr>"
    by (simp add: w1_def new_handle_def initial_world_def)
  have fs1: "fs w1 = files" by (simp add: w1_def new_handle_def initial_world_def)
  have out1: "stdout w1 = []" by (simp add: w1_def new_handle_def initial_world_def)
  have sz: "fstat_size 3 w1 = Inr (length c)"
    using assms(3) by (simp add: fstat_size_def tab fs1)
  have "\<exists>w'. dump_words (length c div 4) 3 ?e w1 = (Exit 0, w')
      \<and> stdout w' = stdout w1 @ dump_range ?e c 0 (min (0 + length c div 4) (length c div 4))
      \<and> read_calls w' = read_calls w1 + min (length c div 4) (Suc (length c div 4 - 0))
      \<and> fs w' = fs w1 \<and> open_files w' 3 \<noteq> None"
    using assms(3) by (intro dump_words_run [OF tab, of l c 0]) (simp_all add: fs1)
  then obtain w' where w': "dump_words (length c div 4) 3 ?e w1 = (Exit 0, w')"
    "stdout w' = dump_range ?e c 0 (length c div 4)" "fs w' = files" "open_files w' 3 \<noteq> None"
    by (auto simp: out1 fs1)
  have nl: "\<not> length args < 2" using assms(1) by simp
  have "read_binary args ?w = (Exit 0, w')"
    by (simp only: read_binary_def nl if_False Let_def o1 sum.case prod.case sz w'(1))
  with w'(2,3,4) show ?thesis by blast
qed

lemma u32_le_word_at:
  assumes "i < length c div 4"
  shows "u32_le (word_at c i) =
    uint (c ! (4 * i)) + 2 ^ 8 * uint (c ! (4 * i + 1)) + 2 ^ 16 * uint (c ! (4 * i + 2))
      + 2 ^ 24 * uint (c ! (4 * i + 3))"
proof -
  from assms have "4 * i + 3 < length c" by presburger
  then show ?thesis by (simp add: u32_le_def word_at_def)
qed

lemma word_at_take:
  assumes "i < n"
  shows "word_at (take (4 * n) c) i = word_at c i"
proof -
  from assms have "4 \<le> 4 * n - 4 * i" by simp
  then show ?thesis by (simp add: word_at_def drop_take min_def)
qed

lemma dump_range_cong:
  assumes "\<And>i. i < n \<Longrightarrow> word_at c1 i = word_at c2 i"
  shows "dump_range ending c1 0 n = dump_range ending c2 0 n"
  unfolding dump_range_def using assms by (auto intro!: arg_cong [where f = concat])

lemma dumper_usage:
  assumes "args \<noteq> []" and "length args < 2"
  shows "read_binary args w =
    (Exit 1, w\<lparr>stdout := stdout w @ ''Usage: '' @ hd args @ '' <filename> [seperator]'' @ newline
        @ newline @ (CHR 0x09 # ''Default seperator is newline'') @ newline\<rparr>)"
  using assms by (cases args) (simp_all add: read_binary_def py_print_def)

lemma names_simps [simp]:
  "names [] p = Inl FileNotFoundError"
  "names ((q, f) # ps) p = (if q = p then Inr f else names ps p)"
  by (simp_all add: names_def)

section \<open>Claims about the Converter\<close>

text \<open>
  In the claims below the input path and the output path resolve, to different files;
  the input is a regular file the process may read; the output is no directory and the
  process may write it. These are the runs in which both \<^verbatim>\<open>open\<close> calls succeed and the
  conversion is not in place.
\<close>

text \<open>
  Claim C1 (Converter contract). Run on an input file whose length is a multiple of 4
  and on an output path that \<^verbatim>\<open>open\<close> accepts and that names another file, the Converter
  ends with exit status 0 and leaves an output file of the same length; for every word
  index \<open>i\<close>, the \<open>i\<close>-th 4-byte word of the output read as a little-endian unsigned
  integer is the \<open>i\<close>-th word of the input read as a big-endian one, and it is that input
  word with its bytes reversed.
\<close>

theorem converter_contract:
  assumes "lc pin = Inr li" and "lc pout = Inr lo" and "li \<noteq> lo"
    and "files li = Some (RegularFile inp)" and "\<not> dn li RB"
    and "files lo \<noteq> Some Directory" and "\<not> dn lo WB"
    and "4 dvd length inp"
  shows "\<exists>w' outp. convert_to_little [a0, pin, pout] (initial_world lc dn files) = Some (Exit 0, w')
      \<and> fs w' lo = Some (RegularFile outp)
      \<and> length outp = length inp
      \<and> (\<forall>i<length inp div 4.
            u32_le (word_at outp i) = u32_be (word_at inp i)
          \<and> word_at outp i = rev (word_at inp i))"
proof -
  from converter_run [of lc pin li pout lo files inp dn a0, OF assms(1-7)] assms(8)
  obtain w' where run: "convert_to_little [a0, pin, pout] (initial_world lc dn files) = Some (Exit 0, w')"
    and out: "fs w' = files(lo \<mapsto> RegularFile (swap_words inp))"
    by auto
  have len: "length (swap_words inp) = length inp"
    using assms(8) by (simp add: length_swap_words)
  have words: "u32_le (word_at (swap_words inp) i) = u32_be (word_at inp i)
      \<and> word_at (swap_words inp) i = rev (word_at inp i)" if "i < length inp div 4" for i
    using that by (simp add: word_at_swap_words u32_le_rev length_word_at)
  have "fs w' lo = Some (RegularFile (swap_words inp))"
    by (simp add: out)
  with run len words show ?thesis by blast
qed

text \<open>The literal case of the specification: the bytes 00 00 00 01 become 01 00 00 00.\<close>

theorem converter_contract_witness:
  "names [(''in'', 0), (''out'', 1)] ''in'' = Inr 0
   \<and> names [(''in'', 0), (''out'', 1)] ''out'' = Inr 1
   \<and> (0 :: file_id) \<noteq> 1
   \<and> [0 \<mapsto> RegularFile [0, 0, 0, 1]] (0 :: file_id) = Some (RegularFile [0, 0, 0, 1])
   \<and> \<not> nothing_denied 0 RB
   \<and> [0 \<mapsto> RegularFile [0, 0, 0, 1]] (1 :: file_id) \<noteq> Some Directory
   \<and> \<not> nothing_denied 1 WB
   \<and> 4 dvd length [0, 0, 0, 1 :: byte]
   \<and> (\<exists>w'. convert_to_little [''convert'', ''in'', ''out'']
               (initial_world (names [(''in'', 0), (''out'', 1)]) nothing_denied
                  [0 \<mapsto> RegularFile [0, 0, 0, 1]]) = Some (Exit 0, w')
          \<and> fs w' 1 = Some (RegularFile [1, 0, 0, 0]))"
proof -
  let ?lc = "names [(''in'', 0), (''out'', 1)]"
  let ?files = "[(0 :: file_id) \<mapsto> RegularFile [0, 0, 0, 1]]"
  have h1: "?lc ''in'' = Inr 0" by simp
  have h2: "?lc ''out'' = Inr 1" by simp
  have h3: "(0 :: file_id) \<noteq> 1" by simp
  have h4: "?files 0 = Some (RegularFile [0, 0, 0, 1])" by simp
  have h5: "\<not> nothing_denied 0 RB" by (simp add: nothing_denied_def)
  have h6: "?files 1 \<noteq> Some Directory" by simp
  have h7: "\<not> nothing_denied 1 WB" by (simp add: nothing_denied_def)
  have l: "length [0, 0, 0, 1 :: byte] = 4" by simp
  have h8: "4 dvd length [0, 0, 0, 1 :: byte]" unfolding l by simp
  from converter_contract [of ?lc "''in''" 0 "''out''" 1 ?files "[0, 0, 0, 1]" nothing_denied "''convert''",
      OF h1 h2 h3 h4 h5 h6 h7 h8]
  obtain w' outp where r: "convert_to_little [''convert'', ''in'', ''out'']
               (initial_world ?lc nothing_denied ?files) = Some (Exit 0, w')"
    "fs w' 1 = Some (RegularFile outp)" "length outp = length [0, 0, 0, 1 :: byte]"
    "\<forall>i<length [0, 0, 0, 1 :: byte] div 4.
        u32_le (word_at outp i) = u32_be (word_at [0, 0, 0, 1] i)
      \<and> word_at outp i = rev (word_at [0, 0, 0, 1] i)"
    by blast
  from r(4) [unfolded l] have "word_at outp 0 = rev (word_at [0, 0, 0, 1] 0)" by simp
  with r(3) have "outp = [1, 0, 0, 0]"
    by (simp add: word_at_def)
  with r(1,2) h1 h2 h3 h4 h5 h6 h7 h8 show ?thesis by blast
qed

text \<open>
  Claim C3 (round trip). For an input whose length is a multiple of 4, converting it and
  then converting the result again gives back the original bytes.
\<close>

theorem converter_round_trip:
  assumes "lc p1 = Inr l1" and "lc p2 = Inr l2" and "lc p3 = Inr l3"
    and "l1 \<noteq> l2" and "l2 \<noteq> l3"
    and "files l1 = Some (RegularFile inp)" and "\<not> dn l1 RB"
    and "files l2 \<noteq> Some Directory" and "\<not> dn l2 WB" and "\<not> dn l2 RB"
    and "files l3 \<noteq> Some Directory" and "\<not> dn l3 WB"
    and "4 dvd length inp"
  shows "\<exists>w1 w2. convert_to_little [a0, p1, p2] (initial_world lc dn files) = Some (Exit 0, w1)
      \<and> convert_to_little [a0, p2, p3] (initial_world lc dn (fs w1)) = Some (Exit 0, w2)
      \<and> fs w2 l3 = Some (RegularFile inp)"
proof -
  from converter_run [of lc p1 l1 p2 l2 files inp dn a0, OF assms(1,2,4,6,7,8,9)] assms(13)
  obtain w1 where run1: "convert_to_little [a0, p1, p2] (initial_world lc dn files) = Some (Exit 0, w1)"
    and out1: "fs w1 = files(l2 \<mapsto> RegularFile (swap_words inp))"
    by auto
  have in2: "fs w1 l2 = Some (RegularFile (swap_words inp))" by (simp add: out1)
  have nd: "fs w1 l3 \<noteq> Some Directory" using assms(5,11) by (simp add: out1)
  have dvd2: "4 dvd length (swap_words inp)" by (simp add: length_swap_words)
  from converter_run [of lc p2 l2 p3 l3 "fs w1" "swap_words inp" dn a0,
      OF assms(2,3,5) in2 assms(10) nd assms(12)] dvd2
  obtain w2 where run2: "convert_to_little [a0, p2, p3] (initial_world lc dn (fs w1)) = Some (Exit 0, w2)"
    and out2: "fs w2 = (fs w1)(l3 \<mapsto> RegularFile (swap_words (swap_words inp)))"
    by auto
  have "swap_words (swap_words inp) = inp"
    using assms(13) by (simp add: swap_words_twice)
  with run1 run2 out2 show ?thesis by simp
qed

theorem converter_round_trip_witness:
  "names [(''a'', 0), (''b'', 1), (''c'', 2)] ''a'' = Inr 0
   \<and> names [(''a'', 0), (''b'', 1), (''c'', 2)] ''b'' = Inr 1
   \<and> names [(''a'', 0), (''b'', 1), (''c'', 2)] ''c'' = Inr 2
   \<and> (0 :: file_id) \<noteq> 1 \<and> (1 :: file_id) \<noteq> 2
   \<and> [0 \<mapsto> RegularFile [1, 2, 3, 4, 5, 6, 7, 8]] (0 :: file_id) = Some (RegularFile [1, 2, 3, 4, 5, 6, 7, 8])
   \<and> \<not> nothing_denied 0 RB
   \<and> [0 \<mapsto> RegularFile [1, 2, 3, 4, 5, 6, 7, 8]] (1 :: file_id) \<noteq> Some Directory
   \<and> \<not> nothing_denied 1 WB \<and> \<not> nothing_denied 1 RB
   \<and> [0 \<mapsto> RegularFile [1, 2, 3, 4, 5, 6, 7, 8]] (2 :: file_id) \<noteq> Some Directory
   \<and> \<not> nothing_denied 2 WB
   \<and> 4 dvd length [1, 2, 3, 4, 5, 6, 7, 8 :: byte]
   \<and> (\<exists>w1 w2. convert_to_little [''convert'', ''a'', ''b'']
                  (initial_world (names [(''a'', 0), (''b'', 1), (''c'', 2)]) nothing_denied
                     [0 \<mapsto> RegularFile [1, 2, 3, 4, 5, 6, 7, 8]]) = Some (Exit 0, w1)
          \<and> convert_to_little [''convert'', ''b'', ''c'']
               (initial_world (names [(''a'', 0), (''b'', 1), (''c'', 2)]) nothing_denied (fs w1))
              = Some (Exit 0, w2)
          \<and> fs w2 2 = Some (RegularFile [1, 2, 3, 4, 5, 6, 7, 8]))"
proof -
  let ?lc = "names [(''a'', 0), (''b'', 1), (''c'', 2)]"
  let ?files = "[(0 :: file_id) \<mapsto> RegularFile [1, 2, 3, 4, 5, 6, 7, 8]]"
  have h1: "?lc ''a'' = Inr 0" by simp
  have h2: "?lc ''b'' = Inr 1" by simp
  have h3: "?lc ''c'' = Inr 2" by simp
  have h4: "(0 :: file_id) \<noteq> 1" by simp
  have h5: "(1 :: file_id) \<noteq> 2" by simp
  have h6: "?files 0 = Some (RegularFile [1, 2, 3, 4, 5, 6, 7, 8])" by simp
  have h7: "\<not> nothing_denied 0 RB" by (simp add: nothing_denied_def)
  have h8: "?files 1 \<noteq> Some Directory" by simp
  have h9: "\<not> nothing_denied 1 WB" by (simp add: nothing_denied_def)
  have h10: "\<not> nothing_denied 1 RB" by (simp add: nothing_denied_def)
  have h11: "?files 2 \<noteq> Some Directory" by simp
  have h12: "\<not> nothing_denied 2 WB" by (simp add: nothing_denied_def)
  have l: "length [1, 2, 3, 4, 5, 6, 7, 8 :: byte] = 8" by simp
  have h13: "4 dvd length [1, 2, 3, 4, 5, 6, 7, 8 :: byte]" unfolding l by simp
  from converter_round_trip [of ?lc "''a''" 0 "''b''" 1 "''c''" 2 ?files "[1, 2, 3, 4, 5, 6, 7, 8]"
      nothing_denied "''convert''", OF h1 h2 h3 h4 h5 h6 h7 h8 h9 h10 h11 h12 h13]
    h1 h2 h3 h4 h5 h6 h7 h8 h9 h10 h11 h12 h13
  show ?thesis by blast
qed

text \<open>
  Claim C4 (fail-fast on truncated input). For an input of \<open>N\<close> bytes with \<open>N\<close> not a
  multiple of 4, the Converter converts and writes the first \<open>N div 4\<close> words, then
  \<^verbatim>\<open>struct.error\<close> on the trailing 1 to 3 bytes leaves the script uncaught: the process
  ends with a nonzero status, and the output file holds exactly those \<open>N div 4\<close>
  converted words.
\<close>

theorem converter_fail_fast:
  assumes "lc pin = Inr li" and "lc pout = Inr lo" and "li \<noteq> lo"
    and "files li = Some (RegularFile inp)" and "\<not> dn li RB"
    and "files lo \<noteq> Some Directory" and "\<not> dn lo WB"
    and "\<not> 4 dvd length inp"
  shows "\<exists>w' outp. convert_to_little [a0, pin, pout] (initial_world lc dn files)
          = Some (Uncaught StructError, w')
      \<and> exit_status (Uncaught StructError) \<noteq> 0
      \<and> fs w' lo = Some (RegularFile outp)
      \<and> length outp = 4 * (length inp div 4)
      \<and> (\<forall>i<length inp div 4. word_at outp i = rev (word_at inp i))"
proof -
  from converter_run [of lc pin li pout lo files inp dn a0, OF assms(1-7)] assms(8)
  obtain w' where run: "convert_to_little [a0, pin, pout] (initial_world lc dn files)
      = Some (Uncaught StructError, w')"
    and out: "fs w' = files(lo \<mapsto> RegularFile (swap_words inp))"
    by auto
  show ?thesis
    apply (rule exI [of _ w'])
    apply (rule exI [of _ "swap_words inp"])
    using run out by (simp add: length_swap_words word_at_swap_words)
qed

theorem converter_fail_fast_witness:
  "names [(''in'', 0), (''out'', 1)] ''in'' = Inr 0
   \<and> names [(''in'', 0), (''out'', 1)] ''out'' = Inr 1
   \<and> (0 :: file_id) \<noteq> 1
   \<and> [0 \<mapsto> RegularFile [0, 0, 0, 1, 9, 9]] (0 :: file_id) = Some (RegularFile [0, 0, 0, 1, 9, 9])
   \<and> \<not> nothing_denied 0 RB
   \<and> [0 \<mapsto> RegularFile [0, 0, 0, 1, 9, 9]] (1 :: file_id) \<noteq> Some Directory
   \<and> \<not> nothing_denied 1 WB
   \<and> \<not> 4 dvd length [0, 0, 0, 1, 9, 9 :: byte]
   \<and> (\<exists>w'. convert_to_little [''convert'', ''in'', ''out'']
               (initial_world (names [(''in'', 0), (''out'', 1)]) nothing_denied
                  [0 \<mapsto> RegularFile [0, 0, 0, 1, 9, 9]])
             = Some (Uncaught StructError, w')
          \<and> fs w' 1 = Some (RegularFile [1, 0, 0, 0]))"
proof -
  let ?lc = "names [(''in'', 0), (''out'', 1)]"
  let ?files = "[(0 :: file_id) \<mapsto> RegularFile [0, 0, 0, 1, 9, 9]]"
  have h1: "?lc ''in'' = Inr 0" by simp
  have h2: "?lc ''out'' = Inr 1" by simp
  have h3: "(0 :: file_id) \<noteq> 1" by simp
  have h4: "?files 0 = Some (RegularFile [0, 0, 0, 1, 9, 9])" by simp
  have h5: "\<not> nothing_denied 0 RB" by (simp add: nothing_denied_def)
  have h6: "?files 1 \<noteq> Some Directory" by simp
  have h7: "\<not> nothing_denied 1 WB" by (simp add: nothing_denied_def)
  have l: "length [0, 0, 0, 1, 9, 9 :: byte] = 6" by simp
  have h8: "\<not> 4 dvd length [0, 0, 0, 1, 9, 9 :: byte]" unfolding l by simp
  from converter_fail_fast [of ?lc "''in''" 0 "''out''" 1 ?files "[0, 0, 0, 1, 9, 9]" nothing_denied
      "''convert''", OF h1 h2 h3 h4 h5 h6 h7 h8]
  obtain w' outp where r: "convert_to_little [''convert'', ''in'', ''out'']
               (initial_world ?lc nothing_denied ?files) = Some (Uncaught StructError, w')"
    "fs w' 1 = Some (RegularFile outp)"
    "length outp = 4 * (length [0, 0, 0, 1, 9, 9 :: byte] div 4)"
    "\<forall>i<length [0, 0, 0, 1, 9, 9 :: byte] div 4.
        word_at outp i = rev (word_at [0, 0, 0, 1, 9, 9] i)"
    by blast
  from r(4) [unfolded l] have "word_at outp 0 = rev (word_at [0, 0, 0, 1, 9, 9] 0)" by simp
  with r(3) [unfolded l] have "outp = [1, 0, 0, 0]"
    by (simp add: word_at_def)
  with r(1,2) h1 h2 h3 h4 h5 h6 h7 h8 show ?thesis by blast
qed

text \<open>
  What the hypotheses above leave out, on an example: started on \<^verbatim>\<open>in\<close> and \<^verbatim>\<open>./in\<close>, two
  names of one file, the Converter empties that file when it opens it for writing, reads
  nothing, and ends with exit status 0.
\<close>

lemma converter_on_its_own_input:
  "\<exists>w'. convert_to_little [''convert'', ''in'', ''./in'']
          (initial_world (names [(''in'', 0), (''./in'', 0)]) nothing_denied
             [0 \<mapsto> RegularFile [0, 0, 0, 1, 9, 9]]) = Some (Exit 0, w')
      \<and> fs w' 0 = Some (RegularFile [])"
proof -
  have "\<exists>w'. convert_to_little [''convert'', ''in'', ''./in'']
          (initial_world (names [(''in'', 0), (''./in'', 0)]) nothing_denied
             [0 \<mapsto> RegularFile [0, 0, 0, 1, 9, 9]]) = Some (Exit 0, w')
      \<and> fs w' = [0 \<mapsto> RegularFile [0, 0, 0, 1, 9, 9]](0 \<mapsto> RegularFile [])
      \<and> open_files w' = Map.empty"
    by (rule converter_run_same) (simp_all add: nothing_denied_def)
  then show ?thesis by auto
qed

section \<open>Claims about the Dumper\<close>

text \<open>
  In the claims about whole runs the file named on the command line resolves to a
  regular file that the process may read: the runs in which \<^verbatim>\<open>open\<close> succeeds.
\<close>

text \<open>
  Claim C2 (word count and truncation tolerance). For an input file of \<open>N\<close> bytes the
  Dumper ends with exit status 0 and its output is, for each of the \<open>N div 4\<close> complete
  words in file order, the word's little-endian value in decimal followed by the
  separator, whatever \<open>N mod 4\<close> is. On a file of 6 bytes that is one value, the one of the
  first 4 bytes.
\<close>

theorem dumper_word_count:
  assumes "2 \<le> length args" and "lc (args ! 1) = Inr l"
    and "files l = Some (RegularFile c)" and "\<not> dn l RB"
  shows "\<exists>w'. read_binary args (initial_world lc dn files) = (Exit 0, w')
      \<and> stdout w' =
          concat (map (\<lambda>i. py_str (u32_le (word_at c i)) @ (if 2 < length args then args ! 2 else newline))
                   [0..<length c div 4])
      \<and> (length c = 6 \<longrightarrow>
          stdout w' = py_str (u32_le (take 4 c)) @ (if 2 < length args then args ! 2 else newline))"
proof -
  let ?e = "if 2 < length args then args ! 2 else newline"
  from dumper_run [of args lc l files c dn, OF assms]
  obtain w' where run: "read_binary args (initial_world lc dn files) = (Exit 0, w')"
    and out: "stdout w' = dump_range ?e c 0 (length c div 4)"
    by blast
  have six: "dump_range ?e c 0 (length c div 4) = py_str (u32_le (take 4 c)) @ ?e"
    if "length c = 6"
    unfolding that dump_range_def by (simp add: word_at_def)
  from run out six show ?thesis
    by (auto simp: dump_range_def)
qed

theorem dumper_word_count_witness:
  "2 \<le> length [''dump'', ''f'']
   \<and> names [(''f'', 0)] ([''dump'', ''f''] ! 1) = Inr 0
   \<and> [0 \<mapsto> RegularFile [1, 0, 0, 0, 2, 0]] (0 :: file_id) = Some (RegularFile [1, 0, 0, 0, 2, 0])
   \<and> \<not> nothing_denied 0 RB
   \<and> read_binary [''dump'', ''f'']
        (initial_world (names [(''f'', 0)]) nothing_denied [0 \<mapsto> RegularFile [1, 0, 0, 0, 2, 0]])
      = (Exit 0, snd (read_binary [''dump'', ''f'']
           (initial_world (names [(''f'', 0)]) nothing_denied [0 \<mapsto> RegularFile [1, 0, 0, 0, 2, 0]])))
   \<and> stdout (snd (read_binary [''dump'', ''f'']
        (initial_world (names [(''f'', 0)]) nothing_denied [0 \<mapsto> RegularFile [1, 0, 0, 0, 2, 0]])))
      = ''1'' @ newline"
proof -
  let ?lc = "names [(''f'', 0)]"
  let ?files = "[(0 :: file_id) \<mapsto> RegularFile [1, 0, 0, 0, 2, 0 :: byte]]"
  have h1: "2 \<le> length [''dump'', ''f'']" by simp
  have h2: "?lc ([''dump'', ''f''] ! 1) = Inr 0" by simp
  have h3: "?files 0 = Some (RegularFile [1, 0, 0, 0, 2, 0])" by simp
  have h4: "\<not> nothing_denied 0 RB" by (simp add: nothing_denied_def)
  have l: "length [1, 0, 0, 0, 2, 0 :: byte] = 6" by simp
  from dumper_word_count [of "[''dump'', ''f'']" ?lc 0 ?files "[1, 0, 0, 0, 2, 0]" nothing_denied,
      OF h1 h2 h3 h4]
  obtain w' where r: "read_binary [''dump'', ''f''] (initial_world ?lc nothing_denied ?files) = (Exit 0, w')"
    "length [1, 0, 0, 0, 2, 0 :: byte] = 6 \<longrightarrow> stdout w' =
       py_str (u32_le (take 4 [1, 0, 0, 0, 2, 0])) @ (if 2 < length [''dump'', ''f''] then [''dump'', ''f''] ! 2 else newline)"
    by blast
  from r(2) l have "stdout w' = ''1'' @ newline"
    by (simp add: u32_le_def py_str_def str_nat.simps)
  with r(1) h1 h2 h3 h4 show ?thesis by simp
qed

text \<open>
  Claim C5 (recovered fault). Let the loop run for \<open>n\<close> iterations from word \<open>k\<close> of a file
  that holds fewer than \<open>k + n\<close> complete words, as when the file shrank after its size
  was taken. The read at the first incomplete word yields fewer than 4 bytes; the
  \<^verbatim>\<open>struct.error\<close> is caught and the loop stops at once: the failed read is the last call
  of \<^verbatim>\<open>read\<close>, however many iterations were left. Nothing is printed for that read, and
  the script ends with exit status 0 having printed exactly the complete words before
  it.
\<close>

theorem dumper_recovers_from_short_read:
  assumes "open_files w f = Some fi" and "f_mode fi = RB" and "f_file fi = l"
    and "fs w l = Some (RegularFile c)" and "f_pos fi = 4 * k"
    and "k \<le> length c div 4" and "length c div 4 < k + n"
  shows "\<exists>w'. dump_words n f ending w = (Exit 0, w')
      \<and> stdout w' =
          stdout w @ concat (map (\<lambda>i. py_str (u32_le (word_at c i)) @ ending) [k..<length c div 4])
      \<and> read_calls w' = read_calls w + (length c div 4 - k) + 1
      \<and> length (word_at c (length c div 4)) < 4"
proof -
  from dump_words_run [OF assms(1,2,3,4,5), of n ending]
  obtain w' where run: "dump_words n f ending w = (Exit 0, w')"
    and out: "stdout w' = stdout w @ dump_range ending c k (min (k + n) (length c div 4))"
    and cnt: "read_calls w' = read_calls w + min n (Suc (length c div 4 - k))"
    by blast
  have m: "min (k + n) (length c div 4) = length c div 4"
    using assms(7) by simp
  have m': "min n (Suc (length c div 4 - k)) = (length c div 4 - k) + 1"
    using assms(6,7) by simp
  have "length c < 4 * (length c div 4) + 4" by presburger
  then have short: "length (word_at c (length c div 4)) < 4"
    by (simp add: word_at_def)
  from run out cnt short show ?thesis
    by (simp add: m m' dump_range_def)
qed

text \<open>
  A file of 6 bytes and a loop of 3 iterations: one value is printed and \<^verbatim>\<open>read\<close> is
  called twice, not three times.
\<close>

theorem dumper_recovers_from_short_read_witness:
  "open_files \<lparr>locate = names [(''f'', 0)], denied = nothing_denied,
        fs = [0 \<mapsto> RegularFile [1, 0, 0, 0, 2, 0]],
        open_files = [3 \<mapsto> \<lparr>f_file = 0, f_mode = RB, f_pos = 0\<rparr>],
        next_fd = 4, stdout = [], read_calls = 0\<rparr> 3 = Some \<lparr>f_file = 0, f_mode = RB, f_pos = 0\<rparr>
   \<and> (0 :: nat) \<le> length [1, 0, 0, 0, 2, 0 :: byte] div 4
   \<and> length [1, 0, 0, 0, 2, 0 :: byte] div 4 < 0 + 3
   \<and> (\<exists>w'. dump_words 3 3 '',''
          \<lparr>locate = names [(''f'', 0)], denied = nothing_denied,
           fs = [0 \<mapsto> RegularFile [1, 0, 0, 0, 2, 0]],
           open_files = [3 \<mapsto> \<lparr>f_file = 0, f_mode = RB, f_pos = 0\<rparr>],
           next_fd = 4, stdout = [], read_calls = 0\<rparr> = (Exit 0, w')
        \<and> stdout w' = ''1,''
        \<and> read_calls w' = 2)"
proof -
  let ?fi = "\<lparr>f_file = 0, f_mode = RB, f_pos = 0\<rparr>"
  let ?w = "\<lparr>locate = names [(''f'', 0)], denied = nothing_denied,
        fs = [0 \<mapsto> RegularFile [1, 0, 0, 0, 2, 0]],
        open_files = [3 \<mapsto> ?fi], next_fd = 4, stdout = [], read_calls = 0\<rparr>"
  have l: "length [1, 0, 0, 0, 2, 0 :: byte] = 6" by simp
  have h1: "open_files ?w 3 = Some ?fi" by simp
  have h2: "f_mode ?fi = RB" by simp
  have h3: "f_file ?fi = 0" by simp
  have h4: "fs ?w 0 = Some (RegularFile [1, 0, 0, 0, 2, 0])" by simp
  have h5: "f_pos ?fi = 4 * 0" by simp
  have h6: "(0 :: nat) \<le> length [1, 0, 0, 0, 2, 0 :: byte] div 4" by simp
  have h7: "length [1, 0, 0, 0, 2, 0 :: byte] div 4 < 0 + 3" unfolding l by simp
  from dumper_recovers_from_short_read [of ?w 3 ?fi 0 "[1, 0, 0, 0, 2, 0]" 0 3 "'',''",
      OF h1 h2 h3 h4 h5 h6 h7]
  obtain w' where r: "dump_words 3 3 '','' ?w = (Exit 0, w')"
    "stdout w' = stdout ?w @ concat (map (\<lambda>i. py_str (u32_le (word_at [1, 0, 0, 0, 2, 0] i)) @ '','')
        [0..<length [1, 0, 0, 0, 2, 0 :: byte] div 4])"
    "read_calls w' = read_calls ?w + (length [1, 0, 0, 0, 2, 0 :: byte] div 4 - 0) + 1"
    by blast
  from r(2) [unfolded l] have "stdout w' = ''1,''"
    by (simp add: word_at_def u32_le_def py_str_def str_nat.simps)
  moreover from r(3) [unfolded l] have "read_calls w' = 2" by simp
  ultimately show ?thesis using r(1) h1 h6 h7 by blast
qed

text \<open>
  Claim C7 (separator passthrough). On a file of the 8 bytes 01 00 00 00 02 00 00 00 and
  with the separator \<^verbatim>\<open>,\<close> the Dumper writes exactly \<^verbatim>\<open>1,2,\<close>. In general, with a
  separator on the command line, the output is each value in decimal followed by that
  separator as given, and nothing else.
\<close>

theorem separator_passthrough:
  "(\<exists>w'. read_binary [a0, p, '','']
            (initial_world (names [(p, 0)]) nothing_denied [0 \<mapsto> RegularFile [1, 0, 0, 0, 2, 0, 0, 0]])
            = (Exit 0, w')
        \<and> stdout w' = ''1,2,'')
   \<and> (3 \<le> length args \<and> lc (args ! 1) = Inr l \<and> files l = Some (RegularFile c) \<and> \<not> dn l RB \<longrightarrow>
        (\<exists>w'. read_binary args (initial_world lc dn files) = (Exit 0, w')
           \<and> stdout w' = concat (map (\<lambda>i. py_str (u32_le (word_at c i)) @ args ! 2)
                                 [0..<length c div 4])))"
proof (intro conjI impI)
  let ?c = "[1, 0, 0, 0, 2, 0, 0, 0 :: byte]"
  let ?files = "[(0 :: file_id) \<mapsto> RegularFile ?c]"
  have l: "length ?c = 8" by simp
  have "\<exists>w'. read_binary [a0, p, '',''] (initial_world (names [(p, 0)]) nothing_denied ?files) = (Exit 0, w')
      \<and> stdout w' = dump_range (if 2 < length [a0, p, '',''] then [a0, p, '',''] ! 2 else newline) ?c 0 (length ?c div 4)
      \<and> fs w' = ?files
      \<and> open_files w' 3 \<noteq> None"
    by (rule dumper_run [where l = 0]) (simp_all add: nothing_denied_def)
  then obtain w' where r: "read_binary [a0, p, '',''] (initial_world (names [(p, 0)]) nothing_denied ?files) = (Exit 0, w')"
    "stdout w' = dump_range (if 2 < length [a0, p, '',''] then [a0, p, '',''] ! 2 else newline) ?c 0 (length ?c div 4)"
    by blast
  from r(2) [unfolded l] have "stdout w' = ''1,2,''"
    by (simp add: dump_range_def word_at_def u32_le_def py_str_def str_nat.simps upt_rec)
  with r(1) show "\<exists>w'. read_binary [a0, p, '',''] (initial_world (names [(p, 0)]) nothing_denied ?files) = (Exit 0, w')
      \<and> stdout w' = ''1,2,''"
    by blast
next
  assume a: "3 \<le> length args \<and> lc (args ! 1) = Inr l \<and> files l = Some (RegularFile c) \<and> \<not> dn l RB"
  then have "2 \<le> length args" "lc (args ! 1) = Inr l" "files l = Some (RegularFile c)" "\<not> dn l RB"
    "2 < length args"
    by simp_all
  from dumper_run [of args lc l files c dn, OF this(1,2,3,4)] this(5)
  show "\<exists>w'. read_binary args (initial_world lc dn files) = (Exit 0, w')
           \<and> stdout w' = concat (map (\<lambda>i. py_str (u32_le (word_at c i)) @ args ! 2)
                                 [0..<length c div 4])"
    by (auto simp: dump_range_def)
qed

theorem separator_passthrough_witness:
  "3 \<le> length [''dump'', ''f'', '' | '']
   \<and> names [(''f'', 0)] ([''dump'', ''f'', '' | ''] ! 1) = Inr 0
   \<and> [0 \<mapsto> RegularFile [255, 255, 255, 255, 0, 1, 0, 0]] (0 :: file_id)
       = Some (RegularFile [255, 255, 255, 255, 0, 1, 0, 0])
   \<and> \<not> nothing_denied 0 RB
   \<and> (\<exists>w'. read_binary [''dump'', ''f'', '' | '']
              (initial_world (names [(''f'', 0)]) nothing_denied
                 [0 \<mapsto> RegularFile [255, 255, 255, 255, 0, 1, 0, 0]]) = (Exit 0, w')
         \<and> stdout w' = ''4294967295 | 256 | '')"
proof -
  let ?c = "[255, 255, 255, 255, 0, 1, 0, 0 :: byte]"
  let ?args = "[''dump'', ''f'', '' | '']"
  let ?lc = "names [(''f'', 0)]"
  let ?files = "[(0 :: file_id) \<mapsto> RegularFile ?c]"
  have l: "length ?c = 8" by simp
  have h1: "3 \<le> length ?args" by simp
  have h2: "?lc (?args ! 1) = Inr 0" by simp
  have h3: "?files 0 = Some (RegularFile ?c)" by simp
  have h4: "\<not> nothing_denied 0 RB" by (simp add: nothing_denied_def)
  from separator_passthrough [of "''a''" "''p''" ?args ?lc 0 ?files ?c nothing_denied] h1 h2 h3 h4
  obtain w' where r: "read_binary ?args (initial_world ?lc nothing_denied ?files) = (Exit 0, w')"
    "stdout w' = concat (map (\<lambda>i. py_str (u32_le (word_at ?c i)) @ ?args ! 2) [0..<length ?c div 4])"
    by blast
  from r(2) [unfolded l] have "stdout w' = ''4294967295 | 256 | ''"
    by (simp add: word_at_def u32_le_def py_str_def str_nat.simps upt_rec)
  with r(1) h1 h2 h3 h4 show ?thesis by blast
qed

text \<open>
  Claim C9 (trailing bytes have no influence). Two files whose lengths have the same
  quotient by 4 and that agree on their complete words give the same exit status and the
  same output, for the same arguments; the output is that of the file cut down to its
  complete words.
\<close>

theorem dumper_ignores_trailing_bytes:
  assumes "2 \<le> length args"
    and "lc1 (args ! 1) = Inr l1" and "files1 l1 = Some (RegularFile c1)" and "\<not> dn1 l1 RB"
    and "lc2 (args ! 1) = Inr l2" and "files2 l2 = Some (RegularFile c2)" and "\<not> dn2 l2 RB"
    and "length c1 div 4 = length c2 div 4"
    and "take (4 * (length c1 div 4)) c1 = take (4 * (length c2 div 4)) c2"
  shows "fst (read_binary args (initial_world lc1 dn1 files1))
          = fst (read_binary args (initial_world lc2 dn2 files2))
      \<and> stdout (snd (read_binary args (initial_world lc1 dn1 files1)))
          = stdout (snd (read_binary args (initial_world lc2 dn2 files2)))
      \<and> stdout (snd (read_binary args (initial_world lc1 dn1 files1)))
          = stdout (snd (read_binary args
              (initial_world lc1 dn1 (files1(l1 \<mapsto> RegularFile (take (4 * (length c1 div 4)) c1))))))"
proof -
  let ?e = "if 2 < length args then args ! 2 else newline"
  let ?n = "length c1 div 4"
  let ?t = "take (4 * ?n) c1"
  let ?files3 = "files1(l1 \<mapsto> RegularFile ?t)"
  from dumper_run [of args lc1 l1 files1 c1 dn1, OF assms(1,2,3,4)]
  obtain w1 where r1: "read_binary args (initial_world lc1 dn1 files1) = (Exit 0, w1)"
    "stdout w1 = dump_range ?e c1 0 ?n"
    by blast
  from dumper_run [of args lc2 l2 files2 c2 dn2, OF assms(1,5,6,7)]
  obtain w2 where r2: "read_binary args (initial_world lc2 dn2 files2) = (Exit 0, w2)"
    "stdout w2 = dump_range ?e c2 0 (length c2 div 4)"
    by blast
  have f3: "?files3 l1 = Some (RegularFile ?t)" by simp
  from dumper_run [of args lc1 l1 ?files3 ?t dn1, OF assms(1,2) f3 assms(4)]
  obtain w3 where r3: "read_binary args (initial_world lc1 dn1 ?files3) = (Exit 0, w3)"
    "stdout w3 = dump_range ?e ?t 0 (length ?t div 4)"
    by blast
  have lt: "length ?t div 4 = ?n"
  proof -
    have "4 * ?n \<le> length c1" by presburger
    then have "length ?t = 4 * ?n" by simp
    then show ?thesis by simp
  qed
  have w1t: "word_at c1 i = word_at ?t i" if "i < ?n" for i
    using that by (simp add: word_at_take)
  have w2t: "word_at c2 i = word_at ?t i" if "i < ?n" for i
    using that word_at_take [of i "length c2 div 4" c2] assms(8,9) by simp
  have e13: "dump_range ?e c1 0 ?n = dump_range ?e ?t 0 ?n"
    by (rule dump_range_cong) (rule w1t)
  have e23: "dump_range ?e c2 0 ?n = dump_range ?e ?t 0 ?n"
    by (rule dump_range_cong) (rule w2t)
  from r1 r2 r3 e13 e23 lt assms(8) show ?thesis by simp
qed

theorem dumper_ignores_trailing_bytes_witness:
  "2 \<le> length [''dump'', ''f'']
   \<and> names [(''f'', 0)] ([''dump'', ''f''] ! 1) = Inr 0
   \<and> [0 \<mapsto> RegularFile [1, 0, 0, 0, 9]] (0 :: file_id) = Some (RegularFile [1, 0, 0, 0, 9])
   \<and> [0 \<mapsto> RegularFile [1, 0, 0, 0, 7, 7]] (0 :: file_id) = Some (RegularFile [1, 0, 0, 0, 7, 7])
   \<and> \<not> nothing_denied 0 RB
   \<and> length [1, 0, 0, 0, 9 :: byte] div 4 = length [1, 0, 0, 0, 7, 7 :: byte] div 4
   \<and> take (4 * (length [1, 0, 0, 0, 9 :: byte] div 4)) [1, 0, 0, 0, 9 :: byte]
       = take (4 * (length [1, 0, 0, 0, 7, 7 :: byte] div 4)) [1, 0, 0, 0, 7, 7]
   \<and> stdout (snd (read_binary [''dump'', ''f'']
        (initial_world (names [(''f'', 0)]) nothing_denied [0 \<mapsto> RegularFile [1, 0, 0, 0, 9]])))
       = stdout (snd (read_binary [''dump'', ''f'']
        (initial_world (names [(''f'', 0)]) nothing_denied [0 \<mapsto> RegularFile [1, 0, 0, 0, 7, 7]])))"
proof -
  let ?lc = "names [(''f'', 0)]"
  let ?files1 = "[(0 :: file_id) \<mapsto> RegularFile [1, 0, 0, 0, 9]]"
  let ?files2 = "[(0 :: file_id) \<mapsto> RegularFile [1, 0, 0, 0, 7, 7]]"
  have l1: "length [1, 0, 0, 0, 9 :: byte] = 5" by simp
  have l2: "length [1, 0, 0, 0, 7, 7 :: byte] = 6" by simp
  have h1: "2 \<le> length [''dump'', ''f'']" by simp
  have h2: "?lc ([''dump'', ''f''] ! 1) = Inr 0" by simp
  have h3: "?files1 0 = Some (RegularFile [1, 0, 0, 0, 9])" by simp
  have h4: "?files2 0 = Some (RegularFile [1, 0, 0, 0, 7, 7])" by simp
  have h5: "\<not> nothing_denied 0 RB" by (simp add: nothing_denied_def)
  have h6: "length [1, 0, 0, 0, 9 :: byte] div 4 = length [1, 0, 0, 0, 7, 7 :: byte] div 4"
    unfolding l1 l2 by simp
  have h7: "take (4 * (length [1, 0, 0, 0, 9 :: byte] div 4)) [1, 0, 0, 0, 9 :: byte]
       = take (4 * (length [1, 0, 0, 0, 7, 7 :: byte] div 4)) [1, 0, 0, 0, 7, 7]"
    unfolding l1 l2 by simp
  from dumper_ignores_trailing_bytes [of "[''dump'', ''f'']" ?lc 0 ?files1 "[1, 0, 0, 0, 9]" nothing_denied
      ?lc 0 ?files2 "[1, 0, 0, 0, 7, 7]" nothing_denied, OF h1 h2 h3 h5 h2 h4 h5 h6 h7]
    h1 h2 h3 h4 h5 h6 h7
  show ?thesis by blast
qed

text \<open>
  Claim C10 (range of the printed values). Every value the Dumper prints is what
  \<^verbatim>\<open>unpack('<I', ...)\<close> returns on a complete word of the file: the little-endian reading
  of its 4 bytes, at least 0 and below \<open>2^32\<close>.
\<close>

theorem dumper_values_are_u32:
  assumes "2 \<le> length args" and "lc (args ! 1) = Inr l"
    and "files l = Some (RegularFile c)" and "\<not> dn l RB"
  shows "\<exists>w'. read_binary args (initial_world lc dn files) = (Exit 0, w')
      \<and> stdout w' =
          concat (map (\<lambda>i. py_str (u32_le (word_at c i)) @ (if 2 < length args then args ! 2 else newline))
                   [0..<length c div 4])
      \<and> (\<forall>i<length c div 4.
            unpack_I_le (word_at c i) = Inr (u32_le (word_at c i))
          \<and> 0 \<le> u32_le (word_at c i) \<and> u32_le (word_at c i) < 2 ^ 32
          \<and> u32_le (word_at c i) =
              uint (c ! (4 * i)) + 2 ^ 8 * uint (c ! (4 * i + 1)) + 2 ^ 16 * uint (c ! (4 * i + 2))
                + 2 ^ 24 * uint (c ! (4 * i + 3)))"
proof -
  from dumper_run [of args lc l files c dn, OF assms]
  obtain w' where run: "read_binary args (initial_world lc dn files) = (Exit 0, w')"
    and out: "stdout w' = dump_range (if 2 < length args then args ! 2 else newline) c 0 (length c div 4)"
    by blast
  have vals: "unpack_I_le (word_at c i) = Inr (u32_le (word_at c i))
          \<and> 0 \<le> u32_le (word_at c i) \<and> u32_le (word_at c i) < 2 ^ 32
          \<and> u32_le (word_at c i) =
              uint (c ! (4 * i)) + 2 ^ 8 * uint (c ! (4 * i + 1)) + 2 ^ 16 * uint (c ! (4 * i + 2))
                + 2 ^ 24 * uint (c ! (4 * i + 3))"
    if "i < length c div 4" for i
  proof -
    from that have l4: "length (word_at c i) = 4" by (rule length_word_at)
    from l4 that show ?thesis
      by (intro conjI unpack_I_le_word u32_le_range u32_le_word_at)
  qed
  from run out vals show ?thesis
    unfolding dump_range_def by blast
qed

theorem dumper_values_are_u32_witness:
  "2 \<le> length [''dump'', ''f'']
   \<and> names [(''f'', 0)] ([''dump'', ''f''] ! 1) = Inr 0
   \<and> [0 \<mapsto> RegularFile [255, 255, 255, 255]] (0 :: file_id) = Some (RegularFile [255, 255, 255, 255])
   \<and> \<not> nothing_denied 0 RB
   \<and> (\<exists>w'. read_binary [''dump'', ''f'']
              (initial_world (names [(''f'', 0)]) nothing_denied [0 \<mapsto> RegularFile [255, 255, 255, 255]])
              = (Exit 0, w')
         \<and> stdout w' = ''4294967295'' @ newline)
   \<and> u32_le (word_at [255, 255, 255, 255] 0) = 4294967295
   \<and> u32_le (word_at [255, 255, 255, 255] 0) < 2 ^ 32"
proof -
  let ?c = "[255, 255, 255, 255 :: byte]"
  let ?args = "[''dump'', ''f'']"
  let ?lc = "names [(''f'', 0)]"
  let ?files = "[(0 :: file_id) \<mapsto> RegularFile ?c]"
  have l: "length ?c = 4" by simp
  have h1: "2 \<le> length ?args" by simp
  have h2: "?lc (?args ! 1) = Inr 0" by simp
  have h3: "?files 0 = Some (RegularFile ?c)" by simp
  have h4: "\<not> nothing_denied 0 RB" by (simp add: nothing_denied_def)
  from dumper_values_are_u32 [of ?args ?lc 0 ?files ?c nothing_denied, OF h1 h2 h3 h4]
  obtain w' where r: "read_binary ?args (initial_world ?lc nothing_denied ?files) = (Exit 0, w')"
    "stdout w' = concat (map (\<lambda>i. py_str (u32_le (word_at ?c i)) @ (if 2 < length ?args then ?args ! 2 else newline))
                   [0..<length ?c div 4])"
    "\<forall>i<length ?c div 4. u32_le (word_at ?c i) < 2 ^ 32"
    by blast
  have v: "u32_le (word_at ?c 0) = 4294967295"
    by (simp add: word_at_def u32_le_def)
  from r(3) [unfolded l] have b: "u32_le (word_at ?c 0) < 2 ^ 32" by simp
  from r(2) [unfolded l] have "stdout w' = ''4294967295'' @ newline"
    by (simp add: word_at_def u32_le_def py_str_def str_nat.simps)
  with r(1) h1 h2 h3 h4 v b show ?thesis by blast
qed

section \<open>Claims about both scripts\<close>

text \<open>
  Claim C6 (usage enforcement), as stated, gives the Dumper a usage message of two
  lines. The script prints three: the usage line, an empty line and the note on the
  default separator.
\<close>

theorem dumper_usage_two_lines_counterexample:
  "lines_of (stdout (snd (read_binary [''dump''] (initial_world (names []) nothing_denied Map.empty))))
     = [''Usage: dump <filename> [seperator]'', [], CHR 0x09 # ''Default seperator is newline'']
   \<and> length (lines_of (stdout (snd (read_binary [''dump'']
        (initial_world (names []) nothing_denied Map.empty))))) \<noteq> 2"
  by (simp add: dumper_usage initial_world_def newline_def)

text \<open>
  Claim C6, amended. Started with an argument count other than two, the Converter
  prints its usage line and exits with status 1; started with no file name, the Dumper
  prints its usage line, an empty line and a note on the default separator, and exits
  with status 1. Either leaves the file system and the table of open files as they
  were.
\<close>

theorem usage_enforcement:
  "(argv \<noteq> [] \<and> length argv \<noteq> 3 \<longrightarrow>
      convert_to_little argv w =
        Some (Exit 1,
          w\<lparr>stdout := stdout w @ ''Usage: '' @ hd argv @ '' <in_file> <out_file>'' @ newline\<rparr>))
   \<and> (args \<noteq> [] \<and> length args < 2 \<longrightarrow>
      read_binary args w' =
        (Exit 1,
          w'\<lparr>stdout := stdout w' @ ''Usage: '' @ hd args @ '' <filename> [seperator]'' @ newline
            @ newline @ (CHR 0x09 # ''Default seperator is newline'') @ newline\<rparr>))"
  using converter_usage [of argv w] dumper_usage [of args w'] by blast

theorem usage_enforcement_witness:
  "[''convert'', ''x''] \<noteq> [] \<and> length [''convert'', ''x''] \<noteq> 3
   \<and> convert_to_little [''convert'', ''x'']
        (initial_world (names [(''x'', 0)]) nothing_denied [0 \<mapsto> RegularFile [0, 0, 0, 1]])
      = Some (Exit 1,
          \<lparr>locate = names [(''x'', 0)], denied = nothing_denied,
           fs = [0 \<mapsto> RegularFile [0, 0, 0, 1]], open_files = Map.empty, next_fd = 3,
           stdout = ''Usage: convert <in_file> <out_file>'' @ newline, read_calls = 0\<rparr>)
   \<and> [''dump''] \<noteq> [] \<and> length [''dump''] < 2
   \<and> read_binary [''dump''] (initial_world (names []) nothing_denied Map.empty)
      = (Exit 1,
          \<lparr>locate = names [], denied = nothing_denied,
           fs = Map.empty, open_files = Map.empty, next_fd = 3,
           stdout = ''Usage: dump <filename> [seperator]'' @ newline @ newline
             @ (CHR 0x09 # ''Default seperator is newline'') @ newline, read_calls = 0\<rparr>)"
proof -
  have h1: "[''convert'', ''x''] \<noteq> [] \<and> length [''convert'', ''x''] \<noteq> 3" by simp
  have h2: "[''dump''] \<noteq> [] \<and> length [''dump''] < 2" by simp
  from usage_enforcement [of "[''convert'', ''x'']"
      "initial_world (names [(''x'', 0)]) nothing_denied [0 \<mapsto> RegularFile [0, 0, 0, 1]]"
      "[''dump'']" "initial_world (names []) nothing_denied Map.empty"] h1 h2
  show ?thesis by (simp add: initial_world_def)
qed

text \<open>
  Claim C8 (release of file handles) has the Converter release both its streams on every
  exit path. The script opens both files before its \<^verbatim>\<open>try\<close>, so when the second
  \<^verbatim>\<open>open\<close> raises, the \<^verbatim>\<open>finally\<close> that closes the files is never entered. Here the input
  exists and the directory of the output does not: the run ends with an uncaught
  \<open>FileNotFoundError\<close>, nothing written, and the input file, opened as handle 3, never
  closed.
\<close>

theorem converter_leaves_input_open:
  "convert_to_little [''convert'', ''in'', ''nodir/out'']
     (initial_world (names [(''in'', 0)]) nothing_denied [0 \<mapsto> RegularFile [0, 0, 0, 1]])
   = Some (Uncaught FileNotFoundError,
       \<lparr>locate = names [(''in'', 0)], denied = nothing_denied,
        fs = [0 \<mapsto> RegularFile [0, 0, 0, 1]],
        open_files = [3 \<mapsto> \<lparr>f_file = 0, f_mode = RB, f_pos = 0\<rparr>],
        next_fd = 4, stdout = [], read_calls = 0\<rparr>)"
  by (simp add: convert_to_little_def py_open_def new_handle_def initial_world_def
      nothing_denied_def)

end
